theory Spec2Isabelle
  imports Main "HOL-Library.Sublist"
begin

section \<open>Dynamically typed values\<close>

text \<open>
  Context entries and the results of expressions are JavaScript values
  (\<^verbatim>\<open>unknown\<close> / \<^verbatim>\<open>any\<close> in the source).  The model covers \<^verbatim>\<open>undefined\<close>,
  \<^verbatim>\<open>null\<close>, booleans, strings, BigInts, \<^verbatim>\<open>NaN\<close>, the numbers that are safe
  integers, and objects (arrays, functions, boxed primitives), which are
  represented by their string form only.  It has every value that JavaScript
  coerces to \<^verbatim>\<open>false\<close> (\<^verbatim>\<open>-0\<close> is the number \<^verbatim>\<open>0\<close> here: the program
  cannot tell them apart).  The other numbers (fractional, infinite, or beyond
  the safe range), symbols and objects that cannot be converted to a string
  are not modelled.  A string is a list of code units; the type \<open>char\<close> has
  the code units below 256.

  A safe integer (\<^verbatim>\<open>Number.isSafeInteger\<close>) lies between \<open>-(2\<^sup>5\<^sup>3 - 1)\<close> and
  \<open>2\<^sup>5\<^sup>3 - 1\<close>: in this range every integer is a number of its own, and
  \<^verbatim>\<open>String(n)\<close> prints all its decimal digits.  \<open>safe n\<close> is the number \<open>n\<close>
  for an integer \<open>n\<close> of the range.
\<close>

typedef safe_integer = "{n :: int. - 9007199254740991 \<le> n \<and> n \<le> 9007199254740991}"
  morphisms int_of Abs_safe_integer
  by (rule exI [of _ 0]) simp

setup_lifting type_definition_safe_integer

lift_definition safe :: "int \<Rightarrow> safe_integer"
  is "\<lambda>n. if - 9007199254740991 \<le> n \<and> n \<le> 9007199254740991 then n else 0"
  by simp

instantiation safe_integer :: equal
begin

lift_definition equal_safe_integer :: "safe_integer \<Rightarrow> safe_integer \<Rightarrow> bool"
  is "\<lambda>m n. m = n" .

instance
  by standard (transfer, simp)

end

lemma int_of_zero: "int_of n = 0 \<longleftrightarrow> n = safe 0"
  by transfer simp

datatype jsval =
    JSUndefined
  | JSNull
  | JSBoolean bool
  | JSNumber safe_integer
  | JSNaN
  | JSBigInt int
  | JSString string
  | JSObject string

text \<open>Decimal digits of a natural number, as \<^verbatim>\<open>String(n)\<close> prints them.\<close>

definition digit_char :: "nat \<Rightarrow> char" where
  "digit_char d = char_of (48 + d)"

function show_nat :: "nat \<Rightarrow> string" where
  "show_nat n = (if n < 10 then [digit_char n] else show_nat (n div 10) @ [digit_char (n mod 10)])"
  by pat_completeness auto
termination
  by (relation "measure (\<lambda>n. n)") auto

definition show_int :: "int \<Rightarrow> string" where
  "show_int i = (if i < 0 then CHR ''-'' # show_nat (nat (- i)) else show_nat (nat i))"

text \<open>The digits that \<open>show_nat\<close> prints are the decimal digits of the number.\<close>

definition decimal_value :: "string \<Rightarrow> nat" where
  "decimal_value s = foldl (\<lambda>a c. 10 * a + (of_char c - 48)) 0 s"

lemma decimal_value_show_nat: "decimal_value (show_nat n) = n"
proof (induction n rule: show_nat.induct)
  case (1 n)
  show ?case
  proof (cases "n < 10")
    case True
    then show ?thesis by (simp add: decimal_value_def digit_char_def)
  next
    case False
    have d: "of_char (digit_char (n mod 10)) = 48 + n mod 10"
      by (simp add: digit_char_def)
    from False 1 have "decimal_value (show_nat (n div 10)) = n div 10" by simp
    with False d show ?thesis
      by (subst show_nat.simps) (simp add: decimal_value_def)
  qed
qed

lemma digit_codes:
  "char_of (48 :: nat) = CHR ''0''" "char_of (49 :: nat) = CHR ''1''"
  "char_of (50 :: nat) = CHR ''2''" "char_of (51 :: nat) = CHR ''3''"
  "char_of (52 :: nat) = CHR ''4''" "char_of (53 :: nat) = CHR ''5''"
  "char_of (54 :: nat) = CHR ''6''" "char_of (55 :: nat) = CHR ''7''"
  "char_of (56 :: nat) = CHR ''8''" "char_of (57 :: nat) = CHR ''9''"
  by code_simp+

text \<open>\<^verbatim>\<open>String(v)\<close>.\<close>

fun js_String :: "jsval \<Rightarrow> string" where
  "js_String JSUndefined = ''undefined''"
| "js_String JSNull = ''null''"
| "js_String (JSBoolean b) = (if b then ''true'' else ''false'')"
| "js_String (JSNumber n) = show_int (int_of n)"
| "js_String JSNaN = ''NaN''"
| "js_String (JSBigInt n) = show_int n"
| "js_String (JSString s) = s"
| "js_String (JSObject s) = s"

text \<open>
  The coercion to a boolean that \<^verbatim>\<open>c ? a : b\<close>, \<^verbatim>\<open>a || b\<close> and \<^verbatim>\<open>!a\<close> apply.
\<close>

fun truthy :: "jsval \<Rightarrow> bool" where
  "truthy JSUndefined = False"
| "truthy JSNull = False"
| "truthy (JSBoolean b) = b"
| "truthy (JSNumber n) = (int_of n \<noteq> 0)"
| "truthy JSNaN = False"
| "truthy (JSBigInt n) = (n \<noteq> 0)"
| "truthy (JSString s) = (s \<noteq> [])"
| "truthy (JSObject s) = True"

section \<open>Tokens\<close>

datatype token_type =
    OPEN_TEMPLATE
  | CLOSE_TEMPLATE
  | PIPE
  | QUESTION
  | COLON
  | OR
  | STRING
  | IDENTIFIER
  | TEXT

datatype token = Token (ttype: token_type) (tvalue: string)

text \<open>The name of a token type, as an error message prints it.\<close>

fun type_name :: "token_type \<Rightarrow> string" where
  "type_name OPEN_TEMPLATE = ''OPEN_TEMPLATE''"
| "type_name CLOSE_TEMPLATE = ''CLOSE_TEMPLATE''"
| "type_name PIPE = ''PIPE''"
| "type_name QUESTION = ''QUESTION''"
| "type_name COLON = ''COLON''"
| "type_name OR = ''OR''"
| "type_name STRING = ''STRING''"
| "type_name IDENTIFIER = ''IDENTIFIER''"
| "type_name TEXT = ''TEXT''"

section \<open>The tokenizer\<close>

text \<open>
  The character classes of the regular expressions \<^verbatim>\<open>/\s/\<close>, \<^verbatim>\<open>/[a-zA-Z_]/\<close>
  and \<^verbatim>\<open>/\w/\<close>.
\<close>

definition is_space :: "char \<Rightarrow> bool" where
  "is_space c = (of_char c \<in> {9, 10, 11, 12, 13, 32, 160 :: nat})"

definition is_alpha :: "char \<Rightarrow> bool" where
  "is_alpha c = (let n = of_char c :: nat in (65 \<le> n \<and> n \<le> 90) \<or> (97 \<le> n \<and> n \<le> 122))"

definition is_digit :: "char \<Rightarrow> bool" where
  "is_digit c = (let n = of_char c :: nat in 48 \<le> n \<and> n \<le> 57)"

definition is_ident_start :: "char \<Rightarrow> bool" where
  "is_ident_start c = (is_alpha c \<or> c = CHR ''_'')"

definition is_word :: "char \<Rightarrow> bool" where
  "is_word c = (is_alpha c \<or> is_digit c \<or> c = CHR ''_'')"

text \<open>
  The inner loop of a string literal, entered after the opening quote: the
  literal's text and the input after the literal.  A backslash is dropped and
  the character after it is kept; the loop stops at the closing quote, which
  is skipped, or at the end of the input.
\<close>

fun scan_string :: "char \<Rightarrow> string \<Rightarrow> string \<times> string" where
  "scan_string q [] = ([], [])"
| "scan_string q (c # cs) =
     (if c = q then ([], cs)
      else if c = CHR 0x5C then
        (case cs of
           [] \<Rightarrow> ([], [])
         | d # ds \<Rightarrow> (case scan_string q ds of (str, rest) \<Rightarrow> (d # str, rest)))
      else (case scan_string q cs of (str, rest) \<Rightarrow> (c # str, rest)))"

text \<open>
  The inner loop of a text run: the characters up to the next \<^verbatim>\<open>{{\<close> (or
  the end of the input), and the input from there on.
\<close>

fun scan_text :: "string \<Rightarrow> string \<times> string" where
  "scan_text [] = ([], [])"
| "scan_text (c # cs) =
     (if take 2 (c # cs) = ''{{'' then ([], c # cs)
      else (case scan_text cs of (run, rest) \<Rightarrow> (c # run, rest)))"

lemma scan_string_length: "scan_string q cs = (str, rest) \<Longrightarrow> length rest \<le> length cs"
proof (induction q cs arbitrary: str rest rule: scan_string.induct)
  case (1 q)
  then show ?case by simp
next
  case (2 q c cs)
  show ?case
  proof (cases "c = q")
    case True
    with 2 show ?thesis by simp
  next
    case False
    note neq = this
    show ?thesis
    proof (cases "c = CHR 0x5C")
      case True
      show ?thesis
      proof (cases cs)
        case Nil
        with 2 neq True show ?thesis by simp
      next
        case (Cons d ds)
        obtain s r where sr: "scan_string q ds = (s, r)" by (cases "scan_string q ds")
        with 2 neq True Cons have "length r \<le> length ds" and "rest = r" by auto
        with Cons show ?thesis by simp
      qed
    next
      case False
      obtain s r where sr: "scan_string q cs = (s, r)" by (cases "scan_string q cs")
      with 2 neq False have "length r \<le> length cs" and "rest = r" by auto
      then show ?thesis by simp
    qed
  qed
qed

lemma scan_text_length: "scan_text cs = (run, rest) \<Longrightarrow> length rest \<le> length cs"
proof (induction cs arbitrary: run rest)
  case Nil
  then show ?case by simp
next
  case (Cons c cs)
  show ?case
  proof (cases "take 2 (c # cs) = ''{{''")
    case True
    with Cons.prems show ?thesis by simp
  next
    case False
    obtain t r where tr: "scan_text cs = (t, r)" by (cases "scan_text cs")
    with Cons False have "length r \<le> length cs" and "rest = r" by auto
    then show ?thesis by simp
  qed
qed

lemma scan_text_progress:
  "take 2 (c # cs) \<noteq> ''{{'' \<Longrightarrow> scan_text (c # cs) = (run, rest) \<Longrightarrow> length rest < length (c # cs)"
proof -
  assume no: "take 2 (c # cs) \<noteq> ''{{''" and eq: "scan_text (c # cs) = (run, rest)"
  obtain t r where tr: "scan_text cs = (t, r)" by (cases "scan_text cs")
  with no eq have "rest = r" by auto
  with scan_text_length [OF tr] show ?thesis by simp
qed

text \<open>
  One iteration of the main loop of \<^verbatim>\<open>tokenize\<close>, at a position \<^verbatim>\<open>i\<close>
  inside the input: \<open>c\<close> is the character at \<^verbatim>\<open>i\<close> and \<open>cs\<close> the input after
  it.  The result is the list of tokens pushed by the iteration, the new value
  of \<^verbatim>\<open>insideTemplate\<close>, and the input from the new position on.
\<close>

definition tokenize_step :: "bool \<Rightarrow> char \<Rightarrow> string \<Rightarrow> token list \<times> bool \<times> string" where
  "tokenize_step insideTemplate c cs =
     (if take 2 (c # cs) = ''{{'' then
        ([Token OPEN_TEMPLATE ''{{''], True, drop 2 (c # cs))
      else if take 2 (c # cs) = ''}}'' then
        ([Token CLOSE_TEMPLATE ''}}''], False, drop 2 (c # cs))
      else if insideTemplate then
        (if is_space c then ([], insideTemplate, cs)
         else if c = CHR ''|'' then ([Token PIPE ''|''], insideTemplate, cs)
         else if c = CHR ''?'' then ([Token QUESTION ''?''], insideTemplate, cs)
         else if c = CHR '':'' then ([Token COLON '':''], insideTemplate, cs)
         else if c = CHR 0x27 \<or> c = CHR 0x22 then
           (case scan_string c cs of
              (str, rest) \<Rightarrow> ([Token STRING str], insideTemplate, rest))
         else if is_ident_start c then
           (case (takeWhile is_word (c # cs), dropWhile is_word (c # cs)) of
              (identifier, rest) \<Rightarrow>
                (if identifier = ''or'' then ([Token OR identifier], insideTemplate, rest)
                 else ([Token IDENTIFIER identifier], insideTemplate, rest)))
         else ([], insideTemplate, cs))
      else
        (case scan_text (c # cs) of
           (run, rest) \<Rightarrow>
             (if run \<noteq> [] then ([Token TEXT run], insideTemplate, rest)
              else ([], insideTemplate, rest))))"

lemma tokenize_step_length:
  assumes "tokenize_step insideTemplate c cs = (toks, inside', rest)"
  shows "length rest \<le> length cs"
proof (cases "take 2 (c # cs) = ''{{'' \<or> take 2 (c # cs) = ''}}''")
  case True
  with assms show ?thesis by (auto simp: tokenize_step_def split: if_splits)
next
  case False
  note nobrace = this
  show ?thesis
  proof (cases insideTemplate)
    case True
    have id: "is_ident_start c \<Longrightarrow> dropWhile is_word (c # cs) = dropWhile is_word cs"
      by (auto simp: is_ident_start_def is_word_def)
    obtain str r where sr: "scan_string c cs = (str, r)" by (cases "scan_string c cs")
    from scan_string_length [OF sr] length_dropWhile_le [of is_word cs] assms nobrace True sr id
    show ?thesis
      by (auto simp: tokenize_step_def split: if_splits)
  next
    case False
    obtain run r where tr: "scan_text (c # cs) = (run, r)" by (cases "scan_text (c # cs)")
    from nobrace have "take 2 (c # cs) \<noteq> ''{{''" by simp
    from scan_text_progress [OF this tr] assms nobrace False tr show ?thesis
      by (auto simp: tokenize_step_def split: if_splits)
  qed
qed

text \<open>
  The loop of \<^verbatim>\<open>tokenize\<close> from a position on: the tokens pushed from there
  to the end of the input.
\<close>

function tokenize_from :: "bool \<Rightarrow> string \<Rightarrow> token list" where
  "tokenize_from insideTemplate [] = []"
| "tokenize_from insideTemplate (c # cs) =
     (case tokenize_step insideTemplate c cs of
        (toks, inside', rest) \<Rightarrow> toks @ tokenize_from inside' rest)"
  by pat_completeness auto
termination
  apply (relation "measure (\<lambda>(b, s). length s)")
  apply simp
  apply (auto dest!: tokenize_step_length [OF sym])
  done

declare tokenize_from.simps(2) [simp del]

definition tokenize :: "string \<Rightarrow> token list" where
  "tokenize input = tokenize_from False input"

section \<open>The abstract syntax tree\<close>

datatype expr =
    VariableNode string
  | StringNode string
  | PipeNode expr filter_node
  | TernaryNode expr expr expr
  | OrNode expr expr
and filter_node = FilterNode string "expr list"

datatype ast_node = TextNode string | TemplateNode expr

section \<open>The parser\<close>

text \<open>
  The source throws \<^verbatim>\<open>Error\<close> objects with a message; the run-time system
  throws a \<^verbatim>\<open>TypeError\<close> (whose message depends on the engine and is not
  modelled).  A method that can throw returns a sum, the error on the left.
\<close>

datatype error = Error string | TypeError

text \<open>
  The parser's position \<^verbatim>\<open>current\<close> in the token array is modelled by the list
  of the tokens from that position on, which each parsing method returns
  together with its result.  \<open>got\<close> is \<^verbatim>\<open>this.peek()?.type || 'EOF'\<close>.
\<close>

definition got :: "token list \<Rightarrow> string" where
  "got toks = (case toks of [] \<Rightarrow> ''EOF'' | t # _ \<Rightarrow> type_name (ttype t))"

definition expect :: "token_type \<Rightarrow> token list \<Rightarrow> error + (token \<times> token list)" where
  "expect ty toks =
     (case toks of
        [] \<Rightarrow> Inl (Error (''Expected '' @ type_name ty @ '' but got '' @ got toks))
      | t # rest \<Rightarrow>
          if ttype t = ty then Inr (t, rest)
          else Inl (Error (''Expected '' @ type_name ty @ '' but got '' @ got toks)))"

definition parsePrimary :: "token list \<Rightarrow> error + (expr \<times> token list)" where
  "parsePrimary toks =
     (case toks of
        [] \<Rightarrow> Inl (Error (''Unexpected token: '' @ got toks))
      | t # rest \<Rightarrow>
          if ttype t = IDENTIFIER then Inr (VariableNode (tvalue t), rest)
          else if ttype t = STRING then Inr (StringNode (tvalue t), rest)
          else Inl (Error (''Unexpected token: '' @ got toks)))"

lemma expect_length: "expect ty toks = Inr (t, rest) \<Longrightarrow> length rest < length toks"
  by (auto simp: expect_def split: list.splits if_splits)

lemma parsePrimary_length: "parsePrimary toks = Inr (e, rest) \<Longrightarrow> length rest < length toks"
  by (auto simp: parsePrimary_def split: list.splits if_splits)

text \<open>
  The loop of \<^verbatim>\<open>parseFilter\<close> that collects the arguments: primaries, up to
  the first delimiter token or the end of the tokens.
\<close>

definition is_delimiter :: "token_type \<Rightarrow> bool" where
  "is_delimiter ty = (ty = PIPE \<or> ty = QUESTION \<or> ty = COLON \<or> ty = OR \<or> ty = CLOSE_TEMPLATE)"

function parseFilter_args :: "token list \<Rightarrow> error + (expr list \<times> token list)" where
  "parseFilter_args toks =
     (if toks \<noteq> [] \<and> \<not> is_delimiter (ttype (hd toks)) then
        (case parsePrimary toks of
           Inl e \<Rightarrow> Inl e
         | Inr (arg, rest) \<Rightarrow>
             (case parseFilter_args rest of
                Inl e \<Rightarrow> Inl e
              | Inr (args, rest') \<Rightarrow> Inr (arg # args, rest')))
      else Inr ([], toks))"
  by pat_completeness auto
termination
  by (relation "measure length") (auto dest: parsePrimary_length)

declare parseFilter_args.simps [simp del]

lemma parseFilter_args_length:
  "parseFilter_args toks = Inr (args, rest) \<Longrightarrow> length rest \<le> length toks"
proof (induction toks arbitrary: args rest rule: parseFilter_args.induct)
  case (1 toks)
  show ?case
  proof (cases "toks \<noteq> [] \<and> \<not> is_delimiter (ttype (hd toks))")
    case True
    from True 1(2) obtain arg r1 where p: "parsePrimary toks = Inr (arg, r1)"
      by (subst (asm) parseFilter_args.simps) (auto split: sum.splits)
    from True 1(2) p obtain as where "parseFilter_args r1 = Inr (as, rest)"
      by (subst (asm) parseFilter_args.simps) (auto split: sum.splits)
    from 1(1) [OF True p _ this] parsePrimary_length [OF p] show ?thesis by simp
  next
    case False
    with 1(2) show ?thesis by (subst (asm) parseFilter_args.simps) auto
  qed
qed

definition parseFilter :: "token list \<Rightarrow> error + (filter_node \<times> token list)" where
  "parseFilter toks =
     (case expect IDENTIFIER toks of
        Inl e \<Rightarrow> Inl e
      | Inr (name, rest) \<Rightarrow>
          (case parseFilter_args rest of
             Inl e \<Rightarrow> Inl e
           | Inr (args, rest') \<Rightarrow> Inr (FilterNode (tvalue name) args, rest')))"

lemma parseFilter_length: "parseFilter toks = Inr (f, rest) \<Longrightarrow> length rest < length toks"
  by (auto simp: parseFilter_def split: sum.splits dest!: expect_length parseFilter_args_length)

text \<open>
  The loops of \<^verbatim>\<open>parsePipeline\<close> and \<^verbatim>\<open>parseOr\<close> carry the node built so
  far in \<open>left\<close>.
\<close>

function parsePipeline_loop :: "expr \<Rightarrow> token list \<Rightarrow> error + (expr \<times> token list)" where
  "parsePipeline_loop left toks =
     (case toks of
        [] \<Rightarrow> Inr (left, toks)
      | t # rest \<Rightarrow>
          if ttype t = PIPE then
            (case parseFilter rest of
               Inl e \<Rightarrow> Inl e
             | Inr (fltr, rest') \<Rightarrow> parsePipeline_loop (PipeNode left fltr) rest')
          else Inr (left, toks))"
  by pat_completeness auto
termination
  by (relation "measure (\<lambda>(l, toks). length toks)") (auto dest: parseFilter_length)

declare parsePipeline_loop.simps [simp del]

definition parsePipeline :: "token list \<Rightarrow> error + (expr \<times> token list)" where
  "parsePipeline toks =
     (case parsePrimary toks of
        Inl e \<Rightarrow> Inl e
      | Inr (left, rest) \<Rightarrow> parsePipeline_loop left rest)"

lemma parsePipeline_loop_length:
  "parsePipeline_loop left toks = Inr (e, rest) \<Longrightarrow> length rest \<le> length toks"
proof (induction left toks arbitrary: e rest rule: parsePipeline_loop.induct)
  case (1 left toks)
  show ?case
  proof (cases toks)
    case Nil
    with 1(2) show ?thesis by (subst (asm) parsePipeline_loop.simps) simp
  next
    case (Cons t ts)
    show ?thesis
    proof (cases "ttype t = PIPE")
      case True
      from True Cons 1(2) obtain f r1 where p: "parseFilter ts = Inr (f, r1)"
        by (subst (asm) parsePipeline_loop.simps) (auto split: sum.splits)
      from True Cons 1(2) p have "parsePipeline_loop (PipeNode left f) r1 = Inr (e, rest)"
        by (subst (asm) parsePipeline_loop.simps) (auto split: sum.splits)
      from 1(1) [OF Cons True p _ this] parseFilter_length [OF p] Cons show ?thesis by simp
    next
      case False
      with Cons 1(2) show ?thesis by (subst (asm) parsePipeline_loop.simps) auto
    qed
  qed
qed

lemma parsePipeline_length: "parsePipeline toks = Inr (e, rest) \<Longrightarrow> length rest < length toks"
  by (auto simp: parsePipeline_def split: sum.splits
      dest!: parsePrimary_length parsePipeline_loop_length)

function parseOr_loop :: "expr \<Rightarrow> token list \<Rightarrow> error + (expr \<times> token list)" where
  "parseOr_loop left toks =
     (case toks of
        [] \<Rightarrow> Inr (left, toks)
      | t # rest \<Rightarrow>
          if ttype t = OR then
            (case parsePipeline rest of
               Inl e \<Rightarrow> Inl e
             | Inr (right, rest') \<Rightarrow> parseOr_loop (OrNode left right) rest')
          else Inr (left, toks))"
  by pat_completeness auto
termination
  by (relation "measure (\<lambda>(l, toks). length toks)") (auto dest: parsePipeline_length)

declare parseOr_loop.simps [simp del]

definition parseOr :: "token list \<Rightarrow> error + (expr \<times> token list)" where
  "parseOr toks =
     (case parsePipeline toks of
        Inl e \<Rightarrow> Inl e
      | Inr (left, rest) \<Rightarrow> parseOr_loop left rest)"

lemma parseOr_loop_length:
  "parseOr_loop left toks = Inr (e, rest) \<Longrightarrow> length rest \<le> length toks"
proof (induction left toks arbitrary: e rest rule: parseOr_loop.induct)
  case (1 left toks)
  show ?case
  proof (cases toks)
    case Nil
    with 1(2) show ?thesis by (subst (asm) parseOr_loop.simps) simp
  next
    case (Cons t ts)
    show ?thesis
    proof (cases "ttype t = OR")
      case True
      from True Cons 1(2) obtain r r1 where p: "parsePipeline ts = Inr (r, r1)"
        by (subst (asm) parseOr_loop.simps) (auto split: sum.splits)
      from True Cons 1(2) p have "parseOr_loop (OrNode left r) r1 = Inr (e, rest)"
        by (subst (asm) parseOr_loop.simps) (auto split: sum.splits)
      from 1(1) [OF Cons True p _ this] parsePipeline_length [OF p] Cons show ?thesis by simp
    next
      case False
      with Cons 1(2) show ?thesis by (subst (asm) parseOr_loop.simps) auto
    qed
  qed
qed

lemma parseOr_length: "parseOr toks = Inr (e, rest) \<Longrightarrow> length rest < length toks"
  by (auto simp: parseOr_def split: sum.splits dest!: parsePipeline_length parseOr_loop_length)

text \<open>
  \<^verbatim>\<open>parseTernary\<close> calls \<^verbatim>\<open>parseExpression\<close> on the tokens that its first call
  left over, so the termination proof needs to know, of the calls already
  made, that a parsing method returns fewer tokens than it was given.
\<close>

function parseExpression :: "token list \<Rightarrow> error + (expr \<times> token list)"
  and parseTernary :: "token list \<Rightarrow> error + (expr \<times> token list)" where
  "parseExpression toks = parseTernary toks"
| "parseTernary toks =
     (case parseOr toks of
        Inl e \<Rightarrow> Inl e
      | Inr (left, rest) \<Rightarrow>
          (case rest of
             [] \<Rightarrow> Inr (left, rest)
           | t # rest1 \<Rightarrow>
               if ttype t = QUESTION then
                 (case parseExpression rest1 of
                    Inl e \<Rightarrow> Inl e
                  | Inr (trueExpr, rest2) \<Rightarrow>
                      (case expect COLON rest2 of
                         Inl e \<Rightarrow> Inl e
                       | Inr (colon, rest3) \<Rightarrow>
                           (case parseExpression rest3 of
                              Inl e \<Rightarrow> Inl e
                            | Inr (falseExpr, rest4) \<Rightarrow>
                                Inr (TernaryNode left trueExpr falseExpr, rest4))))
               else Inr (left, rest)))"
  by pat_completeness auto

lemma parse_dom_length:
  "parseExpression_parseTernary_dom (Inl toks) \<Longrightarrow>
     parseExpression toks = Inr (e, rest) \<Longrightarrow> length rest < length toks"
  "parseExpression_parseTernary_dom (Inr toks') \<Longrightarrow>
     parseTernary toks' = Inr (e', rest') \<Longrightarrow> length rest' < length toks'"
proof (induction toks and toks' arbitrary: e rest and e' rest'
    rule: parseExpression_parseTernary.pinduct)
  case (1 toks)
  then show ?case by (simp add: parseExpression.psimps)
next
  case (2 toks)
  from 2(4) 2(1) obtain left r0 where or: "parseOr toks = Inr (left, r0)"
    by (auto simp: parseTernary.psimps split: sum.splits)
  note len0 = parseOr_length [OF or]
  show ?case
  proof (cases r0)
    case Nil
    with 2(4) 2(1) or len0 show ?thesis
      by (auto simp: parseTernary.psimps)
  next
    case (Cons t rest1)
    show ?thesis
    proof (cases "ttype t = QUESTION")
      case False
      with 2(4) 2(1) or Cons len0 show ?thesis
        by (auto simp: parseTernary.psimps)
    next
      case True
      from 2(4) 2(1) or Cons True obtain trueExpr rest2
        where t1: "parseExpression rest1 = Inr (trueExpr, rest2)"
        by (auto simp: parseTernary.psimps split: sum.splits)
      from 2(4) 2(1) or Cons True t1 obtain colon rest3
        where c: "expect COLON rest2 = Inr (colon, rest3)"
        by (auto simp: parseTernary.psimps split: sum.splits)
      from 2(4) 2(1) or Cons True t1 c obtain falseExpr
        where t2: "parseExpression rest3 = Inr (falseExpr, rest')"
        by (auto simp: parseTernary.psimps split: sum.splits)
      have l1: "length rest2 < length rest1"
        using 2(2) [OF or refl Cons True t1] by simp
      have l2: "length rest' < length rest3"
        using 2(3) [OF or refl Cons True t1 refl c refl t2] by simp
      from l1 l2 expect_length [OF c] len0 Cons show ?thesis by simp
    qed
  qed
qed

lemma parse_dom_total: "All parseExpression_parseTernary_dom"
  apply (relation "measure (\<lambda>x. case x of Inl toks \<Rightarrow> 2 * length toks + 1 | Inr toks \<Rightarrow> 2 * length toks)")
  apply simp_all
  subgoal for toks b x y x21 x22
    using parseOr_length [of toks x y] by auto
  subgoal for toks b x y x21 x22 ba xa ya bb xb yb
    using parseOr_length [of toks x y] parse_dom_length(1) [of x22 xa ya] expect_length [of COLON ya xb yb]
    by auto
  done

termination parseExpression
  by (rule parse_dom_total)

declare parseExpression.simps [simp del] parseTernary.simps [simp del]

lemma parseExpression_length:
  "parseExpression toks = Inr (e, rest) \<Longrightarrow> length rest < length toks"
  using parse_dom_length(1) parse_dom_total by blast

text \<open>
  The top level: \<^verbatim>\<open>parseNode\<close> returns a node, or \<^verbatim>\<open>null\<close> for a token it
  skips, and \<^verbatim>\<open>parse\<close> collects the nodes up to the end of the tokens.
\<close>

definition parseTemplate :: "token list \<Rightarrow> error + (ast_node \<times> token list)" where
  "parseTemplate toks =
     (case expect OPEN_TEMPLATE toks of
        Inl e \<Rightarrow> Inl e
      | Inr (opening, rest) \<Rightarrow>
          (case parseExpression rest of
             Inl e \<Rightarrow> Inl e
           | Inr (expression, rest') \<Rightarrow>
               (case expect CLOSE_TEMPLATE rest' of
                  Inl e \<Rightarrow> Inl e
                | Inr (closing, rest'') \<Rightarrow> Inr (TemplateNode expression, rest''))))"

lemma parseTemplate_length:
  "parseTemplate toks = Inr (n, rest) \<Longrightarrow> length rest < length toks"
  by (auto simp: parseTemplate_def split: sum.splits
      dest!: expect_length parseExpression_length)

definition parseNode :: "token list \<Rightarrow> error + (ast_node option \<times> token list)" where
  "parseNode toks =
     (case toks of
        [] \<Rightarrow> Inr (None, toks)
      | t # rest \<Rightarrow>
          if ttype t = TEXT then Inr (Some (TextNode (tvalue t)), rest)
          else if ttype t = OPEN_TEMPLATE then
            (case parseTemplate toks of
               Inl e \<Rightarrow> Inl e
             | Inr (node, rest') \<Rightarrow> Inr (Some node, rest'))
          else Inr (None, rest))"

lemma parseNode_length:
  "toks \<noteq> [] \<Longrightarrow> parseNode toks = Inr (n, rest) \<Longrightarrow> length rest < length toks"
  by (auto simp: parseNode_def split: list.splits if_splits sum.splits
      dest!: parseTemplate_length)

function parse :: "token list \<Rightarrow> error + ast_node list" where
  "parse toks =
     (if toks \<noteq> [] then
        (case parseNode toks of
           Inl e \<Rightarrow> Inl e
         | Inr (node, rest) \<Rightarrow>
             (case parse rest of
                Inl e \<Rightarrow> Inl e
              | Inr nodes \<Rightarrow>
                  Inr ((case node of None \<Rightarrow> [] | Some n \<Rightarrow> [n]) @ nodes)))
      else Inr [])"
  by pat_completeness auto
termination
  by (relation "measure length") (auto dest: parseNode_length)

declare parse.simps [simp del]


section \<open>The evaluator\<close>

text \<open>
  A filter is a function of the piped value and the evaluated arguments; it
  returns a value or throws.
\<close>

type_synonym filter_function = "jsval \<Rightarrow> jsval list \<Rightarrow> error + jsval"

type_synonym template_context = "string \<Rightarrow> jsval option"

text \<open>
  The context is a plain object (an object literal, \<^verbatim>\<open>{}\<close> by default), and
  \<open>ctx\<close> gives its own properties.  The lookup \<^verbatim>\<open>context[name]\<close> also finds,
  for a name the context does not bind, the properties that the object
  inherits from \<^verbatim>\<open>Object.prototype\<close>: \<^verbatim>\<open>Object\<close> under \<^verbatim>\<open>constructor\<close>, the
  prototype itself under \<^verbatim>\<open>__proto__\<close>, and a method under each of the ten
  other names.  \<open>native_function\<close> is the string form of a built-in function
  (the text between the braces is the engine's; this is what V8 prints).
\<close>

definition native_function :: "string \<Rightarrow> string" where
  "native_function name = ''function '' @ name @ ''() { [native code] }''"

definition object_prototype_value :: "string \<Rightarrow> jsval option" where
  "object_prototype_value name =
     (if name = ''__proto__'' then Some (JSObject ''[object Object]'')
      else if name = ''constructor'' then Some (JSObject (native_function ''Object''))
      else if name \<in> set [''toString'', ''toLocaleString'', ''valueOf'', ''hasOwnProperty'',
          ''isPrototypeOf'', ''propertyIsEnumerable'', ''__defineGetter__'',
          ''__defineSetter__'', ''__lookupGetter__'', ''__lookupSetter__''] then
        Some (JSObject (native_function name))
      else None)"

definition context_get :: "template_context \<Rightarrow> string \<Rightarrow> jsval" where
  "context_get ctx name =
     (case ctx name of
        Some v \<Rightarrow> v
      | None \<Rightarrow> (case object_prototype_value name of Some v \<Rightarrow> v | None \<Rightarrow> JSUndefined))"

text \<open>\<^verbatim>\<open>a || b\<close>, for an operand \<open>b\<close> that needs no evaluation.\<close>

definition js_or :: "jsval \<Rightarrow> jsval \<Rightarrow> jsval" where
  "js_or a b = (if truthy a then a else b)"

subsection \<open>The built-in filters\<close>

text \<open>
  \<^verbatim>\<open>toLowerCase\<close> and \<^verbatim>\<open>toUpperCase\<close> on the code units below 256: the ASCII
  letters and the letters of the Latin-1 range (\<open>0xD7\<close> and \<open>0xF7\<close> are the
  signs of multiplication and division); \<open>0xDF\<close>, the sharp s, becomes
  \<^verbatim>\<open>SS\<close>.  The upper-case forms of \<open>0xB5\<close> and \<open>0xFF\<close> are code units above
  255, which \<open>char\<close> does not have: \<open>toUpperCase\<close> leaves the two unchanged,
  and strings that contain them are outside the model of \<^verbatim>\<open>upper\<close> and
  \<^verbatim>\<open>capitalize\<close>.  \<open>includes_str\<close> is \<^verbatim>\<open>String.prototype.includes\<close>.
\<close>

definition lower_unit :: "char \<Rightarrow> char" where
  "lower_unit c =
     (let n = of_char c :: nat
      in if (65 \<le> n \<and> n \<le> 90) \<or> (192 \<le> n \<and> n \<le> 222 \<and> n \<noteq> 215)
         then char_of (n + 32) else c)"

definition upper_units :: "char \<Rightarrow> string" where
  "upper_units c =
     (let n = of_char c :: nat
      in if (97 \<le> n \<and> n \<le> 122) \<or> (224 \<le> n \<and> n \<le> 254 \<and> n \<noteq> 247)
         then [char_of (n - 32)]
         else if n = 223 then ''SS'' else [c])"

definition toLowerCase :: "string \<Rightarrow> string" where
  "toLowerCase s = map lower_unit s"

definition toUpperCase :: "string \<Rightarrow> string" where
  "toUpperCase s = concat (map upper_units s)"

fun includes_str :: "string \<Rightarrow> string \<Rightarrow> bool" where
  "includes_str [] search = (search = [])"
| "includes_str (c # cs) search =
     (take (length search) (c # cs) = search \<or> includes_str cs search)"

definition lower :: filter_function where
  "lower v args = Inr (JSString (toLowerCase (js_String v)))"

definition upper :: filter_function where
  "upper v args = Inr (JSString (toUpperCase (js_String v)))"

definition capitalize :: filter_function where
  "capitalize v args =
     (let r = js_String v
      in Inr (JSString (toUpperCase (take 1 r) @ toLowerCase (drop 1 r))))"

definition includes_filter :: filter_function where
  "includes_filter v args =
     (let search = (case args of [] \<Rightarrow> JSUndefined | a # _ \<Rightarrow> a)
      in Inr (JSBoolean (includes_str (js_String v) (js_String search))))"

subsection \<open>Looking a filter up\<close>

text \<open>
  The registry \<^verbatim>\<open>this.filters\<close> is an object literal, so the lookup
  \<^verbatim>\<open>this.filters[filter.name]\<close> finds the registered filters (the object's own
  properties, here an association list) and, for a name that is not
  registered, the properties every object inherits from \<^verbatim>\<open>Object.prototype\<close>.
  \<open>object_prototype\<close> gives, for each of its twelve property names, what the
  call \<^verbatim>\<open>filterFn(value, ...args)\<close> of \<^verbatim>\<open>applyFilter\<close> does with the inherited
  value (the call passes \<^verbatim>\<open>undefined\<close> as \<^verbatim>\<open>this\<close>):
  \<^verbatim>\<open>constructor\<close> is \<^verbatim>\<open>Object\<close>, which boxes the value;
  \<^verbatim>\<open>toString\<close> returns \<^verbatim>\<open>"[object Undefined]"\<close>;
  \<^verbatim>\<open>isPrototypeOf\<close> returns \<^verbatim>\<open>false\<close> for a primitive value;
  \<^verbatim>\<open>__proto__\<close> is an object that cannot be called, and the other methods
  fail to convert \<^verbatim>\<open>this\<close> to an object: a \<^verbatim>\<open>TypeError\<close> in both cases.
\<close>

definition object_prototype :: "string \<Rightarrow> filter_function option" where
  "object_prototype name =
     (if name = ''constructor'' then
        Some (\<lambda>v args. Inr (JSObject
          (if v = JSUndefined \<or> v = JSNull then ''[object Object]'' else js_String v)))
      else if name = ''toString'' then
        Some (\<lambda>v args. Inr (JSString ''[object Undefined]''))
      else if name = ''isPrototypeOf'' then
        Some (\<lambda>v args. case v of JSObject s \<Rightarrow> Inl TypeError | _ \<Rightarrow> Inr (JSBoolean False))
      else if name \<in> set [''toLocaleString'', ''valueOf'', ''hasOwnProperty'',
          ''propertyIsEnumerable'', ''__defineGetter__'', ''__defineSetter__'',
          ''__lookupGetter__'', ''__lookupSetter__'', ''__proto__''] then
        Some (\<lambda>v args. Inl TypeError)
      else None)"

definition get_filter :: "(string \<times> filter_function) list \<Rightarrow> string \<Rightarrow> filter_function option" where
  "get_filter fs name =
     (case map_of fs name of Some fn \<Rightarrow> Some fn | None \<Rightarrow> object_prototype name)"

subsection \<open>Expressions\<close>

text \<open>
  \<open>sequence\<close> collects the results of an \<^verbatim>\<open>Array.prototype.map\<close> whose
  callback can throw: the first error, from left to right, aborts the loop.
\<close>

fun sequence :: "(error + 'a) list \<Rightarrow> error + 'a list" where
  "sequence [] = Inr []"
| "sequence (r # rs) =
     (case r of
        Inl e \<Rightarrow> Inl e
      | Inr v \<Rightarrow> (case sequence rs of Inl e \<Rightarrow> Inl e | Inr vs \<Rightarrow> Inr (v # vs)))"

fun evaluateExpression ::
    "(string \<times> filter_function) list \<Rightarrow> expr \<Rightarrow> template_context \<Rightarrow> error + jsval"
  and applyFilter ::
    "(string \<times> filter_function) list \<Rightarrow> filter_node \<Rightarrow> jsval \<Rightarrow> template_context \<Rightarrow> error + jsval"
  where
  "evaluateExpression fs (VariableNode name) ctx =
     Inr (js_or (context_get ctx name) (JSString ''''))"
| "evaluateExpression fs (StringNode v) ctx = Inr (JSString v)"
| "evaluateExpression fs (PipeNode left fltr) ctx =
     (case evaluateExpression fs left ctx of
        Inl e \<Rightarrow> Inl e
      | Inr v \<Rightarrow> applyFilter fs fltr v ctx)"
| "evaluateExpression fs (TernaryNode condition trueExpr falseExpr) ctx =
     (case evaluateExpression fs condition ctx of
        Inl e \<Rightarrow> Inl e
      | Inr c \<Rightarrow>
          if truthy c then evaluateExpression fs trueExpr ctx
          else evaluateExpression fs falseExpr ctx)"
| "evaluateExpression fs (OrNode left right) ctx =
     (case evaluateExpression fs left ctx of
        Inl e \<Rightarrow> Inl e
      | Inr l \<Rightarrow> if truthy l then Inr l else evaluateExpression fs right ctx)"
| "applyFilter fs (FilterNode name args) v ctx =
     (case get_filter fs name of
        None \<Rightarrow> Inl (Error (''Unknown filter: '' @ name))
      | Some filterFn \<Rightarrow>
          (case sequence (map (\<lambda>arg. evaluateExpression fs arg ctx) args) of
             Inl e \<Rightarrow> Inl e
           | Inr vs \<Rightarrow> filterFn v vs))"

text \<open>
  The \<^verbatim>\<open>default\<close> branches of \<^verbatim>\<open>evaluateExpression\<close> and \<^verbatim>\<open>evaluateNode\<close>
  cannot be reached: the node types are closed.
\<close>

definition evaluateNode ::
    "(string \<times> filter_function) list \<Rightarrow> ast_node \<Rightarrow> template_context \<Rightarrow> error + string" where
  "evaluateNode fs node ctx =
     (case node of
        TextNode v \<Rightarrow> Inr v
      | TemplateNode expression \<Rightarrow>
          (case evaluateExpression fs expression ctx of
             Inl e \<Rightarrow> Inl e
           | Inr v \<Rightarrow> Inr (js_String v)))"

section \<open>The engine\<close>

text \<open>
  The state of a \<^verbatim>\<open>TemplateEngine\<close> object: the registry and the cache of
  compiled templates.  \<open>TemplateEngine\<close> is the state after
  \<^verbatim>\<open>new TemplateEngine()\<close>.  The methods that write to the cache return the
  new state with their result.
\<close>

record engine =
  filters :: "(string \<times> filter_function) list"
  astCache :: "string \<Rightarrow> ast_node list option"

definition TemplateEngine :: engine where
  "TemplateEngine =
     \<lparr> filters = [(''lower'', lower), (''upper'', upper), (''capitalize'', capitalize),
                   (''includes'', includes_filter)],
       astCache = Map.empty \<rparr>"

text \<open>
  \<^verbatim>\<open>compile\<close>, with the parser it invokes on a cache miss
  (\<^verbatim>\<open>new TemplateParser(template).parse()\<close>) as a parameter.
\<close>

definition compile_with ::
    "(string \<Rightarrow> error + ast_node list) \<Rightarrow> engine \<Rightarrow> string \<Rightarrow> (error + ast_node list) \<times> engine" where
  "compile_with parser this template =
     (case astCache this template of
        Some ast \<Rightarrow> (Inr ast, this)
      | None \<Rightarrow>
          (case parser template of
             Inl e \<Rightarrow> (Inl e, this)
           | Inr ast \<Rightarrow> (Inr ast, this\<lparr>astCache := (astCache this)(template \<mapsto> ast)\<rparr>)))"

definition compile :: "engine \<Rightarrow> string \<Rightarrow> (error + ast_node list) \<times> engine" where
  "compile = compile_with (\<lambda>template. parse (tokenize template))"

definition evaluate :: "engine \<Rightarrow> ast_node list \<Rightarrow> template_context \<Rightarrow> error + string" where
  "evaluate this ast ctx =
     (case sequence (map (\<lambda>node. evaluateNode (filters this) node ctx) ast) of
        Inl e \<Rightarrow> Inl e
      | Inr strs \<Rightarrow> Inr (concat strs))"

definition render :: "engine \<Rightarrow> string \<Rightarrow> template_context \<Rightarrow> (error + string) \<times> engine" where
  "render this template ctx =
     (case compile this template of
        (Inl e, this') \<Rightarrow> (Inl e, this')
      | (Inr ast, this') \<Rightarrow> (evaluate this' ast ctx, this'))"


section \<open>Properties\<close>

text \<open>
  The cache of an engine is consistent when every entry is the result of
  parsing its key.  The cache of a new engine is, and \<^verbatim>\<open>compile\<close> and
  \<^verbatim>\<open>render\<close>, the only methods that write to the cache, keep it so.
\<close>

definition cache_ok :: "engine \<Rightarrow> bool" where
  "cache_ok this =
     (\<forall>template ast. astCache this template = Some ast \<longrightarrow> parse (tokenize template) = Inr ast)"

lemma cache_ok_TemplateEngine: "cache_ok TemplateEngine"
  by (simp add: cache_ok_def TemplateEngine_def)

lemma compile_filters: "filters (snd (compile this template)) = filters this"
  by (simp add: compile_def compile_with_def split: option.splits sum.splits)

lemma compile_cache_ok: "cache_ok this \<Longrightarrow> cache_ok (snd (compile this template))"
  by (auto simp: cache_ok_def compile_def compile_with_def split: option.splits sum.splits)

lemma compile_result: "cache_ok this \<Longrightarrow> fst (compile this template) = parse (tokenize template)"
  by (auto simp: cache_ok_def compile_def compile_with_def split: option.splits sum.splits)

lemma evaluate_filters: "filters this' = filters this \<Longrightarrow> evaluate this' ast ctx = evaluate this ast ctx"
  by (simp add: evaluate_def)

lemma render_result:
  assumes "cache_ok this"
  shows "fst (render this template ctx) =
     (case parse (tokenize template) of Inl e \<Rightarrow> Inl e | Inr ast \<Rightarrow> evaluate this ast ctx)"
proof -
  obtain r this' where c: "compile this template = (r, this')" by (cases "compile this template")
  from compile_result [OF assms, of template] c have r: "r = parse (tokenize template)" by simp
  from compile_filters [of this template] c have "filters this' = filters this" by simp
  then have "evaluate this' ast ctx = evaluate this ast ctx" for ast by (rule evaluate_filters)
  with c r show ?thesis by (simp add: render_def split: sum.splits)
qed

lemma render_cache_ok: "cache_ok this \<Longrightarrow> cache_ok (snd (render this template ctx))"
  using compile_cache_ok [of this template]
  by (auto simp: render_def split: prod.splits sum.splits)

lemma truthy_js_or: "truthy (js_or v (JSString '''')) = truthy v"
  by (simp add: js_or_def)

subsection \<open>A single variable\<close>

lemma parse_variable: "parse (tokenize ''{{ x }}'') = Inr [TemplateNode (VariableNode ''x'')]"
  by code_simp

lemma context_get_x:
  "context_get ctx ''x'' = (case ctx ''x'' of None \<Rightarrow> JSUndefined | Some v \<Rightarrow> v)"
  by (simp add: context_get_def object_prototype_value_def split: option.splits)

text \<open>
  C1 (as amended).  On an engine with a consistent cache,
  \<^verbatim>\<open>render('{{ x }}', context)\<close> returns the string form of the value bound to
  \<^verbatim>\<open>x\<close> when that value is truthy (a non-zero safe integer or BigInt in
  decimal, \<^verbatim>\<open>true\<close> as \<^verbatim>\<open>"true"\<close>, a non-empty string as it is, an object as
  its string form), and the empty string when \<^verbatim>\<open>x\<close> is absent or bound to a
  falsy value (\<^verbatim>\<open>0\<close>, \<^verbatim>\<open>0n\<close>, \<^verbatim>\<open>NaN\<close>, \<^verbatim>\<open>false\<close>, \<^verbatim>\<open>""\<close>, \<^verbatim>\<open>null\<close>,
  \<^verbatim>\<open>undefined\<close>).
\<close>

theorem render_variable:
  "cache_ok this \<Longrightarrow>
     fst (render this ''{{ x }}'' ctx) =
       Inr (case ctx ''x'' of
              None \<Rightarrow> ''''
            | Some v \<Rightarrow> if truthy v then js_String v else '''')"
proof -
  assume ok: "cache_ok this"
  have "fst (render this ''{{ x }}'' ctx) = evaluate this [TemplateNode (VariableNode ''x'')] ctx"
    using render_result [OF ok, of "''{{ x }}''" ctx] parse_variable by simp
  also have "\<dots> = Inr (js_String (js_or (context_get ctx ''x'') (JSString '''')))"
    by (simp add: evaluate_def evaluateNode_def)
  also have "js_String (js_or (context_get ctx ''x'') (JSString '''')) =
      (case ctx ''x'' of None \<Rightarrow> '''' | Some v \<Rightarrow> if truthy v then js_String v else '''')"
    by (simp add: js_or_def context_get_x split: option.splits)
  finally show ?thesis .
qed

theorem render_variable_witness:
  "cache_ok TemplateEngine \<and>
   fst (render TemplateEngine ''{{ x }}'' [''x'' \<mapsto> JSNumber (safe 42)]) = Inr ''42'' \<and>
   fst (render TemplateEngine ''{{ x }}'' [''x'' \<mapsto> JSNumber (safe (- 7))]) = Inr ''-7'' \<and>
   fst (render TemplateEngine ''{{ x }}'' [''x'' \<mapsto> JSNumber (safe 9007199254740991)]) =
     Inr ''9007199254740991'' \<and>
   fst (render TemplateEngine ''{{ x }}'' [''x'' \<mapsto> JSBoolean True]) = Inr ''true'' \<and>
   fst (render TemplateEngine ''{{ x }}'' [''x'' \<mapsto> JSString ''John'']) = Inr ''John'' \<and>
   fst (render TemplateEngine ''{{ x }}'' Map.empty) = Inr ''''"
proof -
  have n: "show_int 42 = ''42''" "show_int (- 7) = ''-7''"
    "show_int 9007199254740991 = ''9007199254740991''"
    by (simp_all add: show_int_def digit_char_def digit_codes)
  show ?thesis
    using render_variable [OF cache_ok_TemplateEngine, of "[''x'' \<mapsto> JSNumber (safe 42)]"]
      render_variable [OF cache_ok_TemplateEngine, of "[''x'' \<mapsto> JSNumber (safe (- 7))]"]
      render_variable [OF cache_ok_TemplateEngine,
        of "[''x'' \<mapsto> JSNumber (safe 9007199254740991)]"]
      render_variable [OF cache_ok_TemplateEngine, of "[''x'' \<mapsto> JSBoolean True]"]
      render_variable [OF cache_ok_TemplateEngine, of "[''x'' \<mapsto> JSString ''John'']"]
      render_variable [OF cache_ok_TemplateEngine, of Map.empty]
      cache_ok_TemplateEngine n
    by (simp add: safe.rep_eq)
qed

text \<open>
  The claim as stated fails for the falsy values: \<^verbatim>\<open>0\<close> and \<^verbatim>\<open>false\<close> are
  rendered as the empty string, not as \<^verbatim>\<open>"0"\<close> and \<^verbatim>\<open>"false"\<close>.
\<close>

theorem render_variable_falsy_counterexample:
  "fst (render TemplateEngine ''{{ x }}'' [''x'' \<mapsto> JSNumber (safe 0)]) = Inr '''' \<and>
   js_String (JSNumber (safe 0)) = ''0'' \<and>
   fst (render TemplateEngine ''{{ x }}'' [''x'' \<mapsto> JSBoolean False]) = Inr '''' \<and>
   js_String (JSBoolean False) = ''false''"
  by code_simp

subsection \<open>Text outside placeholders\<close>

lemma scan_text_all: "\<not> includes_str t ''{{'' \<Longrightarrow> scan_text t = (t, [])"
  by (induction t) simp_all

lemma tokenize_text:
  assumes "t \<noteq> []" and "\<not> includes_str t ''{{''" and "take 2 t \<noteq> ''}}''"
  shows "tokenize t = [Token TEXT t]"
proof -
  from assms(1) obtain c cs where t: "t = c # cs" by (cases t) auto
  from assms(2) t have no: "take 2 (c # cs) \<noteq> ''{{''" by simp
  from scan_text_all [OF assms(2)] t have "scan_text (c # cs) = (c # cs, [])" by simp
  with no assms(3) t have "tokenize_step False c cs = ([Token TEXT t], False, [])"
    unfolding tokenize_step_def by simp
  with t show ?thesis by (simp add: tokenize_def tokenize_from.simps(2))
qed

lemma parse_text: "parse [Token TEXT t] = Inr [TextNode t]"
  by (simp add: parse.simps parseNode_def)

lemma render_text:
  assumes "cache_ok this" and "\<not> includes_str t ''{{''" and "take 2 t \<noteq> ''}}''"
  shows "fst (render this t ctx) = Inr t"
proof (cases "t = []")
  case True
  have "parse (tokenize []) = Inr []" by (simp add: tokenize_def parse.simps)
  with True render_result [OF assms(1), of t ctx] show ?thesis
    by (simp add: evaluate_def)
next
  case False
  from tokenize_text [OF False assms(2,3)] parse_text [of t]
  have "parse (tokenize t) = Inr [TextNode t]" by simp
  with render_result [OF assms(1), of t ctx] show ?thesis
    by (simp add: evaluate_def evaluateNode_def)
qed

text \<open>
  C2.  The claim fails on the code for a template that starts with \<^verbatim>\<open>}}\<close>:
  the main loop of the tokenizer tests for \<^verbatim>\<open>}}\<close> before it looks at
  \<^verbatim>\<open>insideTemplate\<close>, pushes a \<^verbatim>\<open>CLOSE_TEMPLATE\<close> token, and the parser skips
  that token.  On a new engine \<^verbatim>\<open>render('}}')\<close> is the empty string and
  \<^verbatim>\<open>render('}}done')\<close> is \<^verbatim>\<open>"done"\<close>, though neither template contains
  \<^verbatim>\<open>{{\<close>.  A template without \<^verbatim>\<open>{{\<close> that does not start with \<^verbatim>\<open>}}\<close> is
  returned unchanged, on every engine with a consistent cache.
\<close>

theorem render_leading_close:
  "fst (render TemplateEngine ''}}'' ctx) = Inr '''' \<and>
   fst (render TemplateEngine ''}}done'' ctx) = Inr ''done'' \<and>
   \<not> includes_str ''}}'' ''{{'' \<and> \<not> includes_str ''}}done'' ''{{'' \<and>
   (cache_ok this \<and> \<not> includes_str t ''{{'' \<and> take 2 t \<noteq> ''}}'' \<longrightarrow>
      fst (render this t ctx) = Inr t)"
proof -
  have a: "parse (tokenize ''}}'') = Inr []" by code_simp
  have b: "parse (tokenize ''}}done'') = Inr [TextNode ''done'']" by code_simp
  have c: "\<not> includes_str ''}}'' ''{{'' \<and> \<not> includes_str ''}}done'' ''{{''" by code_simp
  from a b c render_result [OF cache_ok_TemplateEngine, of _ ctx] render_text [of this t ctx]
  show ?thesis
    by (simp add: evaluate_def evaluateNode_def)
qed

theorem render_leading_close_witness:
  "cache_ok TemplateEngine \<and> \<not> includes_str ''a }} b'' ''{{'' \<and> take 2 ''a }} b'' \<noteq> ''}}'' \<and>
   fst (render TemplateEngine ''a }} b'' Map.empty) = Inr ''a }} b''"
proof -
  have i: "\<not> includes_str ''a }} b'' ''{{''" by code_simp
  from render_leading_close [of Map.empty TemplateEngine "''a }} b''"] i cache_ok_TemplateEngine
  show ?thesis by simp
qed

subsection \<open>Irregular placeholders\<close>

text \<open>
  Every parsing method returns a suffix of the tokens it was given: the parser
  never moves backwards.
\<close>

lemma expect_suffix: "expect ty toks = Inr (t, rest) \<Longrightarrow> toks = t # rest \<and> ttype t = ty"
  by (auto simp: expect_def split: list.splits if_splits)

lemma parsePrimary_suffix: "parsePrimary toks = Inr (e, rest) \<Longrightarrow> suffix rest toks"
  by (auto simp: parsePrimary_def suffix_ConsI split: list.splits if_splits)

lemma parseFilter_args_suffix:
  "parseFilter_args toks = Inr (args, rest) \<Longrightarrow> suffix rest toks"
proof (induction toks arbitrary: args rest rule: parseFilter_args.induct)
  case (1 toks)
  show ?case
  proof (cases "toks \<noteq> [] \<and> \<not> is_delimiter (ttype (hd toks))")
    case True
    from True 1(2) obtain arg r1 where p: "parsePrimary toks = Inr (arg, r1)"
      by (subst (asm) parseFilter_args.simps) (auto split: sum.splits)
    from True 1(2) p obtain as where "parseFilter_args r1 = Inr (as, rest)"
      by (subst (asm) parseFilter_args.simps) (auto split: sum.splits)
    from 1(1) [OF True p _ this] parsePrimary_suffix [OF p] show ?thesis
      by (auto intro: suffix_order.trans)
  next
    case False
    with 1(2) show ?thesis by (subst (asm) parseFilter_args.simps) auto
  qed
qed

lemma parseFilter_suffix: "parseFilter toks = Inr (f, rest) \<Longrightarrow> suffix rest toks"
  by (auto simp: parseFilter_def suffix_ConsI split: sum.splits
      dest!: expect_suffix parseFilter_args_suffix)

lemma parsePipeline_loop_suffix:
  "parsePipeline_loop left toks = Inr (e, rest) \<Longrightarrow> suffix rest toks"
proof (induction left toks arbitrary: e rest rule: parsePipeline_loop.induct)
  case (1 left toks)
  show ?case
  proof (cases toks)
    case Nil
    with 1(2) show ?thesis by (subst (asm) parsePipeline_loop.simps) simp
  next
    case (Cons t ts)
    show ?thesis
    proof (cases "ttype t = PIPE")
      case True
      from True Cons 1(2) obtain f r1 where p: "parseFilter ts = Inr (f, r1)"
        by (subst (asm) parsePipeline_loop.simps) (auto split: sum.splits)
      from True Cons 1(2) p have "parsePipeline_loop (PipeNode left f) r1 = Inr (e, rest)"
        by (subst (asm) parsePipeline_loop.simps) (auto split: sum.splits)
      from 1(1) [OF Cons True p _ this] parseFilter_suffix [OF p] Cons show ?thesis
        by (auto intro: suffix_order.trans suffix_ConsI)
    next
      case False
      with Cons 1(2) show ?thesis by (subst (asm) parsePipeline_loop.simps) auto
    qed
  qed
qed

lemma parsePipeline_suffix: "parsePipeline toks = Inr (e, rest) \<Longrightarrow> suffix rest toks"
  by (auto simp: parsePipeline_def split: sum.splits
      dest!: parsePrimary_suffix parsePipeline_loop_suffix intro: suffix_order.trans)

lemma parseOr_loop_suffix:
  "parseOr_loop left toks = Inr (e, rest) \<Longrightarrow> suffix rest toks"
proof (induction left toks arbitrary: e rest rule: parseOr_loop.induct)
  case (1 left toks)
  show ?case
  proof (cases toks)
    case Nil
    with 1(2) show ?thesis by (subst (asm) parseOr_loop.simps) simp
  next
    case (Cons t ts)
    show ?thesis
    proof (cases "ttype t = OR")
      case True
      from True Cons 1(2) obtain r r1 where p: "parsePipeline ts = Inr (r, r1)"
        by (subst (asm) parseOr_loop.simps) (auto split: sum.splits)
      from True Cons 1(2) p have "parseOr_loop (OrNode left r) r1 = Inr (e, rest)"
        by (subst (asm) parseOr_loop.simps) (auto split: sum.splits)
      from 1(1) [OF Cons True p _ this] parsePipeline_suffix [OF p] Cons show ?thesis
        by (auto intro: suffix_order.trans suffix_ConsI)
    next
      case False
      with Cons 1(2) show ?thesis by (subst (asm) parseOr_loop.simps) auto
    qed
  qed
qed

lemma parseOr_suffix: "parseOr toks = Inr (e, rest) \<Longrightarrow> suffix rest toks"
  by (auto simp: parseOr_def split: sum.splits
      dest!: parsePipeline_suffix parseOr_loop_suffix intro: suffix_order.trans)

lemma parseExpression_suffix:
  "parseExpression toks = Inr (e, rest) \<Longrightarrow> suffix rest toks"
  "parseTernary toks' = Inr (e', rest') \<Longrightarrow> suffix rest' toks'"
proof (induction toks and toks' arbitrary: e rest and e' rest'
    rule: parseExpression_parseTernary.induct)
  case (1 toks)
  then show ?case by (simp add: parseExpression.simps)
next
  case (2 toks)
  from 2(3) obtain left r0 where or: "parseOr toks = Inr (left, r0)"
    by (subst (asm) parseTernary.simps) (auto split: sum.splits)
  note s0 = parseOr_suffix [OF or]
  show ?case
  proof (cases r0)
    case Nil
    with 2(3) or s0 show ?thesis
      by (subst (asm) parseTernary.simps) auto
  next
    case (Cons t rest1)
    show ?thesis
    proof (cases "ttype t = QUESTION")
      case False
      with 2(3) or Cons s0 show ?thesis
        by (subst (asm) parseTernary.simps) auto
    next
      case True
      from 2(3) or Cons True obtain trueExpr rest2
        where t1: "parseExpression rest1 = Inr (trueExpr, rest2)"
        by (subst (asm) parseTernary.simps) (auto split: sum.splits)
      from 2(3) or Cons True t1 obtain colon rest3
        where c: "expect COLON rest2 = Inr (colon, rest3)"
        by (subst (asm) parseTernary.simps) (auto split: sum.splits)
      from 2(3) or Cons True t1 c obtain falseExpr
        where t2: "parseExpression rest3 = Inr (falseExpr, rest')"
        by (subst (asm) parseTernary.simps) (auto split: sum.splits)
      have l1: "suffix rest2 rest1"
        using 2(1) [OF or refl Cons True t1] by simp
      have l2: "suffix rest' rest3"
        using 2(2) [OF or refl Cons True t1 refl c refl t2] by simp
      from expect_suffix [OF c] have "suffix rest3 rest2" by (simp add: suffix_ConsI)
      with l2 have "suffix rest' rest2" by (rule suffix_order.trans)
      then have "suffix rest' rest1" using l1 by (rule suffix_order.trans)
      then have "suffix rest' r0" using Cons by (simp add: suffix_ConsI)
      then show ?thesis using s0 by (rule suffix_order.trans)
    qed
  qed
qed



text \<open>
  The value of \<^verbatim>\<open>insideTemplate\<close> after the tokenizer has pushed a list of
  tokens: only the two brace tokens change it.  A token list that the parser
  accepts ends outside a placeholder, since \<^verbatim>\<open>parseTemplate\<close> consumes the
  tokens of a placeholder up to and including its \<^verbatim>\<open>CLOSE_TEMPLATE\<close>.
\<close>

definition mode_step :: "bool \<Rightarrow> token \<Rightarrow> bool" where
  "mode_step b t =
     (if ttype t = OPEN_TEMPLATE then True else if ttype t = CLOSE_TEMPLATE then False else b)"

definition final_mode :: "bool \<Rightarrow> token list \<Rightarrow> bool" where
  "final_mode b toks = foldl mode_step b toks"

lemma final_mode_simps [simp]:
  "final_mode b [] = b"
  "final_mode b (t # ts) = final_mode (mode_step b t) ts"
  "final_mode b (xs @ ys) = final_mode (final_mode b xs) ys"
  by (simp_all add: final_mode_def)

lemma parseTemplate_closes:
  assumes "parseTemplate toks = Inr (n, rest)"
  shows "\<exists>mid c. toks = mid @ c # rest \<and> ttype c = CLOSE_TEMPLATE"
proof -
  from assms obtain op1 r1 where o: "expect OPEN_TEMPLATE toks = Inr (op1, r1)"
    by (auto simp: parseTemplate_def split: sum.splits)
  from assms o obtain e r2 where e: "parseExpression r1 = Inr (e, r2)"
    by (auto simp: parseTemplate_def split: sum.splits)
  from assms o e obtain c where c: "expect CLOSE_TEMPLATE r2 = Inr (c, rest)"
    by (auto simp: parseTemplate_def split: sum.splits)
  from expect_suffix [OF o] have t: "toks = op1 # r1" by simp
  from parseExpression_suffix(1) [OF e] obtain m where m: "r1 = m @ r2"
    by (auto simp: suffix_def)
  from expect_suffix [OF c] have r2: "r2 = c # rest" and cl: "ttype c = CLOSE_TEMPLATE"
    by simp_all
  from t m r2 have "toks = (op1 # m) @ c # rest" by simp
  with cl show ?thesis by blast
qed

lemma parse_ends_outside: "parse toks = Inr ast \<Longrightarrow> \<not> final_mode False toks"
proof (induction toks arbitrary: ast rule: parse.induct)
  case (1 toks)
  show ?case
  proof (cases toks)
    case Nil
    then show ?thesis by simp
  next
    case (Cons t ts)
    with 1(2) obtain node rest where n: "parseNode toks = Inr (node, rest)"
      by (subst (asm) parse.simps) (auto split: sum.splits)
    with Cons 1(2) obtain nodes where p: "parse rest = Inr nodes"
      by (subst (asm) parse.simps) (auto split: sum.splits)
    from Cons have ne: "toks \<noteq> []" by simp
    have ih: "\<not> final_mode False rest" by (rule 1(1) [OF ne n refl p])
    show ?thesis
    proof (cases "ttype t = OPEN_TEMPLATE")
      case True
      with n Cons obtain nd where "parseTemplate toks = Inr (nd, rest)"
        by (auto simp: parseNode_def split: sum.splits)
      from parseTemplate_closes [OF this] obtain mid c
        where "toks = mid @ c # rest" and "ttype c = CLOSE_TEMPLATE" by blast
      with ih show ?thesis by (simp add: mode_step_def)
    next
      case False
      with n Cons have "rest = ts" by (auto simp: parseNode_def split: if_splits)
      with ih Cons False show ?thesis by (simp add: mode_step_def)
    qed
  qed
qed

text \<open>
  Whether the inner loop of a string literal stops at the closing quote
  (\<^verbatim>\<open>i < this.input.length\<close> after the loop) rather than at the end of the
  input.
\<close>

fun string_closed :: "char \<Rightarrow> string \<Rightarrow> bool" where
  "string_closed q [] = False"
| "string_closed q (c # cs) =
     (if c = q then True
      else if c = CHR 0x5C then (case cs of [] \<Rightarrow> False | d # ds \<Rightarrow> string_closed q ds)
      else string_closed q cs)"

lemma scan_string_unclosed: "\<not> string_closed q cs \<Longrightarrow> snd (scan_string q cs) = []"
proof (induction q cs rule: scan_string.induct)
  case (1 q)
  show ?case by simp
next
  case (2 q c cs)
  from 2(3) have neq: "c \<noteq> q" by auto
  show ?case
  proof (cases "c = CHR 0x5C")
    case True
    show ?thesis
    proof (cases cs)
      case Nil
      with neq True show ?thesis by simp
    next
      case (Cons d ds)
      with 2(3) neq True have "\<not> string_closed q ds" by simp
      from 2(1) [OF neq True Cons this] neq True Cons show ?thesis
        by (auto split: prod.splits)
    qed
  next
    case False
    with 2(3) neq have "\<not> string_closed q cs" by simp
    from 2(2) [OF neq False this] neq False show ?thesis
      by (auto split: prod.splits)
  qed
qed

text \<open>
  The states \<open>(insideTemplate, input from i on)\<close> in which the main loop of
  the tokenizer starts an iteration.
\<close>

function loop_states :: "bool \<Rightarrow> string \<Rightarrow> (bool \<times> string) list" where
  "loop_states insideTemplate [] = []"
| "loop_states insideTemplate (c # cs) =
     (insideTemplate, c # cs) #
     (case tokenize_step insideTemplate c cs of
        (toks, inside', rest) \<Rightarrow> loop_states inside' rest)"
  by pat_completeness auto
termination
  apply (relation "measure (\<lambda>(b, s). length s)")
  apply simp
  apply (auto dest!: tokenize_step_length [OF sym])
  done

declare loop_states.simps(2) [simp del]

lemma tokenize_step_no_brace:
  assumes "take 2 (c # cs) \<noteq> ''{{''" and "take 2 (c # cs) \<noteq> ''}}''"
  shows "fst (snd (tokenize_step b c cs)) = b \<and>
     (\<forall>t\<in>set (fst (tokenize_step b c cs)).
        ttype t \<noteq> OPEN_TEMPLATE \<and> ttype t \<noteq> CLOSE_TEMPLATE)"
  unfolding tokenize_step_def using assms by (simp split: prod.splits)

lemma final_mode_no_brace:
  "\<forall>t\<in>set toks. ttype t \<noteq> OPEN_TEMPLATE \<and> ttype t \<noteq> CLOSE_TEMPLATE \<Longrightarrow>
     final_mode b toks = b"
  by (induction toks) (simp_all add: mode_step_def)

lemma tokenize_step_mode:
  assumes "tokenize_step b c cs = (toks, b', rest)"
  shows "final_mode b toks = b'"
proof (cases "take 2 (c # cs) = ''{{''")
  case True
  with assms show ?thesis by (auto simp: tokenize_step_def mode_step_def)
next
  case False
  note noopen = this
  show ?thesis
  proof (cases "take 2 (c # cs) = ''}}''")
    case True
    with assms noopen show ?thesis by (auto simp: tokenize_step_def mode_step_def)
  next
    case False
    from tokenize_step_no_brace [OF noopen False, of b] assms
    have "b' = b" and "\<forall>t\<in>set toks. ttype t \<noteq> OPEN_TEMPLATE \<and> ttype t \<noteq> CLOSE_TEMPLATE"
      by simp_all
    with final_mode_no_brace [of toks b] show ?thesis by simp
  qed
qed

lemma loop_states_tokens:
  "(b', s') \<in> set (loop_states b s) \<Longrightarrow>
     \<exists>pre. tokenize_from b s = pre @ tokenize_from b' s' \<and> final_mode b pre = b'"
proof (induction b s rule: tokenize_from.induct)
  case (1 insideTemplate)
  then show ?case by simp
next
  case (2 insideTemplate c cs)
  obtain toks inside' rest where st: "tokenize_step insideTemplate c cs = (toks, inside', rest)"
    by (cases "tokenize_step insideTemplate c cs")
  from 2(2) st have "(b', s') = (insideTemplate, c # cs) \<or> (b', s') \<in> set (loop_states inside' rest)"
    by (simp add: loop_states.simps(2))
  then show ?case
  proof
    assume "(b', s') = (insideTemplate, c # cs)"
    then have "tokenize_from insideTemplate (c # cs) = [] @ tokenize_from b' s'"
      and "final_mode insideTemplate [] = b'" by simp_all
    then show ?thesis by blast
  next
    assume "(b', s') \<in> set (loop_states inside' rest)"
    from 2(1) [OF st [symmetric] refl this] obtain pre
      where p: "tokenize_from inside' rest = pre @ tokenize_from b' s'"
        and m: "final_mode inside' pre = b'" by blast
    from st p have "tokenize_from insideTemplate (c # cs) = (toks @ pre) @ tokenize_from b' s'"
      by (simp add: tokenize_from.simps(2))
    moreover from tokenize_step_mode [OF st] m have "final_mode insideTemplate (toks @ pre) = b'"
      by simp
    ultimately show ?thesis by blast
  qed
qed

text \<open>
  A quote, and a character that no branch of the loop recognises at its
  position inside a placeholder.
\<close>

definition is_quote :: "char \<Rightarrow> bool" where
  "is_quote c = (c = CHR 0x27 \<or> c = CHR 0x22)"

lemma quote_facts:
  assumes "is_quote q"
  shows "take 2 (q # cs) \<noteq> ''{{''" "take 2 (q # cs) \<noteq> ''}}''" "\<not> is_space q"
    "q \<noteq> CHR ''|''" "q \<noteq> CHR ''?''" "q \<noteq> CHR '':''" "q = CHR 0x27 \<or> q = CHR 0x22"
  using assms by (auto simp: is_quote_def is_space_def)

lemma tokenize_unclosed_string:
  assumes "is_quote q" and "\<not> string_closed q cs"
  shows "tokenize_from True (q # cs) = [Token STRING (fst (scan_string q cs))]"
proof -
  obtain str rest where s: "scan_string q cs = (str, rest)" by (cases "scan_string q cs")
  with scan_string_unclosed [OF assms(2)] have "rest = []" by simp
  with s have "tokenize_step True q cs = ([Token STRING str], True, [])"
    unfolding tokenize_step_def using quote_facts [OF assms(1)] by simp
  with s show ?thesis by (simp add: tokenize_from.simps(2))
qed

lemma unclosed_string_parse_fails:
  assumes "(True, q # cs) \<in> set (loop_states False template)"
    and "is_quote q" and "\<not> string_closed q cs"
  shows "\<exists>e. parse (tokenize template) = Inl e"
proof -
  from loop_states_tokens [OF assms(1)] obtain pre
    where t: "tokenize template = pre @ tokenize_from True (q # cs)"
      and m: "final_mode False pre" by (auto simp: tokenize_def)
  from t tokenize_unclosed_string [OF assms(2,3)] m
  have "final_mode False (tokenize template)" by (simp add: mode_step_def)
  with parse_ends_outside [of "tokenize template"] show ?thesis
    by (cases "parse (tokenize template)") auto
qed

definition is_unknown :: "char \<Rightarrow> string \<Rightarrow> bool" where
  "is_unknown c cs =
     (take 2 (c # cs) \<noteq> ''{{'' \<and> take 2 (c # cs) \<noteq> ''}}'' \<and> \<not> is_space c \<and>
      c \<noteq> CHR ''|'' \<and> c \<noteq> CHR ''?'' \<and> c \<noteq> CHR '':'' \<and> \<not> is_quote c \<and>
      \<not> is_ident_start c)"

lemma tokenize_unknown: "is_unknown c cs \<Longrightarrow> tokenize_from True (c # cs) = tokenize_from True cs"
  by (auto simp: tokenize_from.simps(2) tokenize_step_def is_unknown_def is_quote_def)



text \<open>
  C3 (as amended).  The tokenizer absorbs both irregularities.  At a position
  inside a placeholder, a character that is neither whitespace, \<^verbatim>\<open>|\<close>,
  \<^verbatim>\<open>?\<close>, \<^verbatim>\<open>:\<close>, a quote nor the start of an identifier, and that does not
  start \<^verbatim>\<open>{{\<close> or \<^verbatim>\<open>}}\<close>, is skipped: the tokens from there on are the
  tokens from the next position on.  A string literal whose closing quote is
  missing is absorbed up to the end of the input, as one \<^verbatim>\<open>STRING\<close> token.
  But \<^verbatim>\<open>compile\<close> and \<^verbatim>\<open>render\<close> still fail when the parser rejects the
  resulting tokens, and on an engine with a consistent cache they always fail
  for a template in which the tokenizer meets such an unterminated literal:
  the literal has swallowed the closing \<^verbatim>\<open>}}\<close>.
\<close>

theorem lenient_tokenizer:
  "(is_unknown c cs \<longrightarrow> tokenize_from True (c # cs) = tokenize_from True cs) \<and>
   (is_quote q \<and> \<not> string_closed q lit \<longrightarrow>
      tokenize_from True (q # lit) = [Token STRING (fst (scan_string q lit))]) \<and>
   ((True, q # lit) \<in> set (loop_states False template) \<and> is_quote q \<and>
    \<not> string_closed q lit \<and> cache_ok this \<longrightarrow>
      (\<exists>e. fst (compile this template) = Inl e) \<and>
      (\<exists>e. fst (render this template ctx) = Inl e))"
proof -
  have fails: "(\<exists>e. fst (compile this template) = Inl e) \<and>
      (\<exists>e. fst (render this template ctx) = Inl e)"
    if st: "(True, q # lit) \<in> set (loop_states False template)" and q: "is_quote q"
      and un: "\<not> string_closed q lit" and ok: "cache_ok this"
  proof -
    from unclosed_string_parse_fails [OF st q un] obtain e
      where e: "parse (tokenize template) = Inl e" ..
    from e compile_result [OF ok, of template] have "fst (compile this template) = Inl e"
      by simp
    moreover from e render_result [OF ok, of template ctx]
    have "fst (render this template ctx) = Inl e" by simp
    ultimately show ?thesis by blast
  qed
  from fails tokenize_unknown [of c cs] tokenize_unclosed_string [of q lit]
  show ?thesis by blast
qed

theorem lenient_tokenizer_witness:
  "is_unknown (CHR ''$'') '' b }}'' \<and>
   tokenize_from True (''$ b }}'') = tokenize_from True '' b }}'' \<and>
   is_quote (CHR 0x27) \<and> \<not> string_closed (CHR 0x27) ''abc }}'' \<and>
   tokenize_from True (CHR 0x27 # ''abc }}'') = [Token STRING ''abc }}''] \<and>
   (True, CHR 0x27 # ''abc }}'') \<in> set (loop_states False ''{{ 'abc }}'') \<and>
   cache_ok TemplateEngine \<and>
   (\<exists>e. fst (compile TemplateEngine ''{{ 'abc }}'') = Inl e) \<and>
   (\<exists>e. fst (render TemplateEngine ''{{ 'abc }}'' Map.empty) = Inl e)"
proof -
  have u: "is_unknown (CHR ''$'') '' b }}''" by code_simp
  have q: "is_quote (CHR 0x27)" by code_simp
  have s: "\<not> string_closed (CHR 0x27) ''abc }}''" by code_simp
  have f: "fst (scan_string (CHR 0x27) ''abc }}'') = ''abc }}''" by code_simp
  have l: "(True, CHR 0x27 # ''abc }}'') \<in> set (loop_states False ''{{ 'abc }}'')" by code_simp
  from lenient_tokenizer [of "CHR ''$''" "'' b }}''" "CHR 0x27" "''abc }}''" "''{{ 'abc }}''"
      TemplateEngine Map.empty] u q s f l cache_ok_TemplateEngine
  show ?thesis by simp
qed

text \<open>
  The claim as stated fails: \<^verbatim>\<open>{{ $ }}\<close> has an unknown character in its
  placeholder and \<^verbatim>\<open>{{ 'abc }}\<close> an unterminated string literal, and on a
  new engine \<^verbatim>\<open>compile\<close> and \<^verbatim>\<open>render\<close> raise an error for both.
\<close>

theorem lenient_compile_counterexample:
  "is_unknown (CHR ''$'') '' }}'' \<and>
   (True, ''$ }}'') \<in> set (loop_states False ''{{ $ }}'') \<and>
   fst (compile TemplateEngine ''{{ $ }}'') = Inl (Error ''Unexpected token: CLOSE_TEMPLATE'') \<and>
   fst (render TemplateEngine ''{{ $ }}'' Map.empty) = Inl (Error ''Unexpected token: CLOSE_TEMPLATE'') \<and>
   \<not> string_closed (CHR 0x27) ''abc }}'' \<and>
   (True, CHR 0x27 # ''abc }}'') \<in> set (loop_states False ''{{ 'abc }}'') \<and>
   fst (compile TemplateEngine ''{{ 'abc }}'') = Inl (Error ''Expected CLOSE_TEMPLATE but got EOF'') \<and>
   fst (render TemplateEngine ''{{ 'abc }}'' Map.empty) = Inl (Error ''Expected CLOSE_TEMPLATE but got EOF'')"
  by code_simp

subsection \<open>Unknown filters\<close>

text \<open>
  C4.  The claim fails on the code for a filter name that is not registered
  but is a property of \<^verbatim>\<open>Object.prototype\<close>: on a new engine, where
  \<^verbatim>\<open>toString\<close> is not registered, \<^verbatim>\<open>render('{{ x | toString }}', {x: 'a'})\<close>
  raises nothing and returns \<^verbatim>\<open>"[object Undefined]"\<close>, while the unregistered
  name \<^verbatim>\<open>nope\<close> raises \<^verbatim>\<open>Unknown filter: nope\<close>.
\<close>

theorem render_inherited_filter:
  "fst (render TemplateEngine ''{{ x | toString }}'' [''x'' \<mapsto> JSString ''a'']) =
     Inr ''[object Undefined]'' \<and>
   map_of (filters TemplateEngine) ''toString'' = None \<and>
   fst (render TemplateEngine ''{{ x | nope }}'' [''x'' \<mapsto> JSString ''a'']) =
     Inl (Error ''Unknown filter: nope'')"
  by code_simp

subsection \<open>Parse errors\<close>

lemma parse_unclosed: "parse (tokenize ''{{ name'') = Inl (Error ''Expected CLOSE_TEMPLATE but got EOF'')"
  by code_simp

lemma parse_missing_colon: "parse (tokenize ''{{ cond ? 'a' }}'') = Inl (Error ''Expected COLON but got CLOSE_TEMPLATE'')"
  by code_simp

lemma parse_digits: "parse (tokenize ''{{ 123 }}'') = Inl (Error ''Unexpected token: CLOSE_TEMPLATE'')"
  by code_simp

text \<open>
  C5.  Parse failures carry their message: on an engine with a consistent
  cache, compiling \<^verbatim>\<open>{{ name\<close> fails with a message that mentions
  \<^verbatim>\<open>CLOSE_TEMPLATE\<close>, compiling \<^verbatim>\<open>{{ cond ? 'a' }}\<close> with one that mentions
  \<^verbatim>\<open>COLON\<close>, and compiling \<^verbatim>\<open>{{ 123 }}\<close> with one that names the unexpected
  token.  Whenever \<^verbatim>\<open>compile\<close> fails, its result is the parser's error, no
  syntax tree, and the engine is left as it was: nothing is cached.
\<close>

theorem compile_parse_errors:
  "cache_ok this \<Longrightarrow>
     fst (compile this ''{{ name'') = Inl (Error ''Expected CLOSE_TEMPLATE but got EOF'') \<and>
     includes_str ''Expected CLOSE_TEMPLATE but got EOF'' ''CLOSE_TEMPLATE'' \<and>
     fst (compile this ''{{ cond ? 'a' }}'') = Inl (Error ''Expected COLON but got CLOSE_TEMPLATE'') \<and>
     includes_str ''Expected COLON but got CLOSE_TEMPLATE'' ''COLON'' \<and>
     fst (compile this ''{{ 123 }}'') = Inl (Error ''Unexpected token: CLOSE_TEMPLATE'') \<and>
     includes_str ''Unexpected token: CLOSE_TEMPLATE'' ''Unexpected token'' \<and>
     (fst (compile this template) = Inl e \<longrightarrow>
        parse (tokenize template) = Inl e \<and> snd (compile this template) = this)"
proof -
  assume ok: "cache_ok this"
  have a: "includes_str ''Expected CLOSE_TEMPLATE but got EOF'' ''CLOSE_TEMPLATE''" by code_simp
  have b: "includes_str ''Expected COLON but got CLOSE_TEMPLATE'' ''COLON''" by code_simp
  have c: "includes_str ''Unexpected token: CLOSE_TEMPLATE'' ''Unexpected token''" by code_simp
  have d: "fst (compile this template) = Inl e \<longrightarrow>
        parse (tokenize template) = Inl e \<and> snd (compile this template) = this"
    using compile_result [OF ok, of template]
    by (auto simp: compile_def compile_with_def split: option.splits sum.splits)
  from a b c d compile_result [OF ok] parse_unclosed parse_missing_colon parse_digits show ?thesis by simp
qed

theorem compile_parse_errors_witness:
  "cache_ok TemplateEngine \<and>
   fst (compile TemplateEngine ''{{ name'') = Inl (Error ''Expected CLOSE_TEMPLATE but got EOF'') \<and>
   fst (compile TemplateEngine ''{{ cond ? 'a' }}'') = Inl (Error ''Expected COLON but got CLOSE_TEMPLATE'') \<and>
   fst (compile TemplateEngine ''{{ 123 }}'') = Inl (Error ''Unexpected token: CLOSE_TEMPLATE'') \<and>
   snd (compile TemplateEngine ''{{ name'') = TemplateEngine"
  using compile_parse_errors [OF cache_ok_TemplateEngine, of "''{{ name''" "Error ''Expected CLOSE_TEMPLATE but got EOF''"]
    cache_ok_TemplateEngine
  by simp

subsection \<open>Truthiness\<close>

lemma parse_ternary_yn:
  "parse (tokenize ''{{ c ? 'y' : 'n' }}'') =
     Inr [TemplateNode (TernaryNode (VariableNode ''c'') (StringNode ''y'') (StringNode ''n''))]"
  by code_simp

lemma parse_ternary_filter:
  "parse (tokenize ''{{ c | f ? 'y' : 'n' }}'') =
     Inr [TemplateNode (TernaryNode (PipeNode (VariableNode ''c'') (FilterNode ''f'' []))
            (StringNode ''y'') (StringNode ''n''))]"
  by code_simp

lemma truthy_iff:
  "truthy v \<longleftrightarrow>
     v \<notin> {JSString '''', JSBoolean False, JSUndefined, JSNull, JSNumber (safe 0), JSNaN,
          JSBigInt 0}"
  by (cases v) (auto simp: int_of_zero)

text \<open>
  A custom filter that returns the same value for every input, as a caller
  can register one with \<^verbatim>\<open>addFilter\<close>.
\<close>

definition constant_filter :: "jsval \<Rightarrow> filter_function" where
  "constant_filter r v args = Inr r"

text \<open>
  C6 (as amended).  A value is falsy exactly when it is the empty string,
  \<^verbatim>\<open>false\<close>, \<^verbatim>\<open>undefined\<close>, \<^verbatim>\<open>null\<close>, the number \<^verbatim>\<open>0\<close>, \<^verbatim>\<open>NaN\<close> or the
  BigInt \<^verbatim>\<open>0n\<close>; every other value is truthy.  A ternary whose condition
  evaluates to a value \<open>v\<close>, whatever expression the condition is, evaluates
  as its false branch when \<open>v\<close> is one of these seven and as its true branch
  otherwise.  On an engine with a consistent cache,
  \<^verbatim>\<open>render("{{ c ? 'y' : 'n' }}", context)\<close> returns \<^verbatim>\<open>"y"\<close> when \<^verbatim>\<open>c\<close> is
  bound to a truthy value and \<^verbatim>\<open>"n"\<close> when \<^verbatim>\<open>c\<close> is absent or bound to a
  falsy value, and \<^verbatim>\<open>render("{{ c | f ? 'y' : 'n' }}", context)\<close>, where the
  registered filter \<^verbatim>\<open>f\<close> returns \<open>v\<close>, returns \<^verbatim>\<open>"n"\<close> when \<open>v\<close> is one
  of the seven and \<^verbatim>\<open>"y"\<close> otherwise.
\<close>

theorem ternary_truthiness:
  "(truthy v \<longleftrightarrow>
      v \<notin> {JSString '''', JSBoolean False, JSUndefined, JSNull, JSNumber (safe 0), JSNaN,
           JSBigInt 0}) \<and>
   (evaluateExpression fs cond ctx = Inr v \<longrightarrow>
      evaluateExpression fs (TernaryNode cond t f) ctx =
        (if v \<in> {JSString '''', JSBoolean False, JSUndefined, JSNull, JSNumber (safe 0), JSNaN,
                  JSBigInt 0}
         then evaluateExpression fs f ctx else evaluateExpression fs t ctx)) \<and>
   (cache_ok this \<longrightarrow>
      fst (render this ''{{ c ? 'y' : 'n' }}'' ctx) =
        Inr (case ctx ''c'' of
               None \<Rightarrow> ''n''
             | Some w \<Rightarrow> if truthy w then ''y'' else ''n'')) \<and>
   (cache_ok this \<and> map_of (filters this) ''f'' = Some fn \<and>
    fn (js_or (context_get ctx ''c'') (JSString '''')) [] = Inr v \<longrightarrow>
      fst (render this ''{{ c | f ? 'y' : 'n' }}'' ctx) =
        Inr (if v \<in> {JSString '''', JSBoolean False, JSUndefined, JSNull, JSNumber (safe 0),
                       JSNaN, JSBigInt 0}
             then ''n'' else ''y''))"
proof -
  let ?falsy = "{JSString '''', JSBoolean False, JSUndefined, JSNull, JSNumber (safe 0), JSNaN,
    JSBigInt 0}"
  have e: "evaluateExpression fs (TernaryNode cond t f) ctx =
      (if v \<in> ?falsy then evaluateExpression fs f ctx else evaluateExpression fs t ctx)"
    if "evaluateExpression fs cond ctx = Inr v"
    using that truthy_iff [of v] by simp
  have c: "context_get ctx ''c'' = (case ctx ''c'' of None \<Rightarrow> JSUndefined | Some w \<Rightarrow> w)"
    by (simp add: context_get_def object_prototype_value_def split: option.splits)
  have r: "fst (render this ''{{ c ? 'y' : 'n' }}'' ctx) =
        Inr (case ctx ''c'' of None \<Rightarrow> ''n'' | Some w \<Rightarrow> if truthy w then ''y'' else ''n'')"
    if ok: "cache_ok this"
  proof -
    have "fst (render this ''{{ c ? 'y' : 'n' }}'' ctx) =
        evaluate this
          [TemplateNode (TernaryNode (VariableNode ''c'') (StringNode ''y'') (StringNode ''n''))] ctx"
      using render_result [OF ok, of "''{{ c ? 'y' : 'n' }}''" ctx] parse_ternary_yn by simp
    also have "\<dots> = Inr (if truthy (context_get ctx ''c'') then ''y'' else ''n'')"
      by (simp add: evaluate_def evaluateNode_def truthy_js_or)
    finally show ?thesis
      by (simp add: c split: option.splits)
  qed
  have p: "fst (render this ''{{ c | f ? 'y' : 'n' }}'' ctx) =
        Inr (if v \<in> ?falsy then ''n'' else ''y'')"
    if ok: "cache_ok this" and reg: "map_of (filters this) ''f'' = Some fn"
      and res: "fn (js_or (context_get ctx ''c'') (JSString '''')) [] = Inr v"
  proof -
    from reg have g: "get_filter (filters this) ''f'' = Some fn" by (simp add: get_filter_def)
    have "fst (render this ''{{ c | f ? 'y' : 'n' }}'' ctx) =
        evaluate this
          [TemplateNode (TernaryNode (PipeNode (VariableNode ''c'') (FilterNode ''f'' []))
            (StringNode ''y'') (StringNode ''n''))] ctx"
      using render_result [OF ok, of "''{{ c | f ? 'y' : 'n' }}''" ctx] parse_ternary_filter
      by simp
    also have "\<dots> = Inr (if truthy v then ''y'' else ''n'')"
      using g res by (simp add: evaluate_def evaluateNode_def)
    finally show ?thesis using truthy_iff [of v] by simp
  qed
  from truthy_iff [of v] e r p show ?thesis by blast
qed

theorem ternary_truthiness_witness:
  "evaluateExpression (filters TemplateEngine)
       (PipeNode (StringNode ''abc'') (FilterNode ''includes'' [StringNode ''zz''])) Map.empty =
     Inr (JSBoolean False) \<and>
   evaluateExpression (filters TemplateEngine)
       (TernaryNode (PipeNode (StringNode ''abc'') (FilterNode ''includes'' [StringNode ''zz'']))
          (StringNode ''y'') (StringNode ''n'')) Map.empty =
     Inr (JSString ''n'') \<and>
   cache_ok TemplateEngine \<and>
   fst (render TemplateEngine ''{{ c ? 'y' : 'n' }}'' [''c'' \<mapsto> JSString '''']) = Inr ''n'' \<and>
   fst (render TemplateEngine ''{{ c ? 'y' : 'n' }}'' [''c'' \<mapsto> JSNumber (safe 0)]) = Inr ''n'' \<and>
   fst (render TemplateEngine ''{{ c ? 'y' : 'n' }}'' [''c'' \<mapsto> JSString ''x'']) = Inr ''y'' \<and>
   fst (render TemplateEngine ''{{ c ? 'y' : 'n' }}'' [''c'' \<mapsto> JSNumber (safe 7)]) = Inr ''y'' \<and>
   fst (render TemplateEngine ''{{ c ? 'y' : 'n' }}'' Map.empty) = Inr ''n'' \<and>
   cache_ok (TemplateEngine\<lparr>filters := [(''f'', constant_filter JSNull)]\<rparr>) \<and>
   map_of (filters (TemplateEngine\<lparr>filters := [(''f'', constant_filter JSNull)]\<rparr>)) ''f'' =
     Some (constant_filter JSNull) \<and>
   constant_filter JSNull (js_or (context_get Map.empty ''c'') (JSString '''')) [] = Inr JSNull \<and>
   fst (render (TemplateEngine\<lparr>filters := [(''f'', constant_filter JSNull)]\<rparr>)
         ''{{ c | f ? 'y' : 'n' }}'' Map.empty) = Inr ''n'' \<and>
   cache_ok (TemplateEngine\<lparr>filters := [(''f'', constant_filter (JSObject ''[]''))]\<rparr>) \<and>
   fst (render (TemplateEngine\<lparr>filters := [(''f'', constant_filter (JSObject ''[]''))]\<rparr>)
         ''{{ c | f ? 'y' : 'n' }}'' Map.empty) = Inr ''y''"
proof -
  let ?cond = "PipeNode (StringNode ''abc'') (FilterNode ''includes'' [StringNode ''zz''])"
  let ?null = "TemplateEngine\<lparr>filters := [(''f'', constant_filter JSNull)]\<rparr>"
  let ?obj = "TemplateEngine\<lparr>filters := [(''f'', constant_filter (JSObject ''[]''))]\<rparr>"
  have i: "evaluateExpression (filters TemplateEngine) ?cond Map.empty = Inr (JSBoolean False)"
    by code_simp
  have k: "cache_ok ?null" "cache_ok ?obj"
    by (simp_all add: cache_ok_def TemplateEngine_def)
  have z: "int_of (safe 0) = 0" "int_of (safe 7) = 7" by (simp_all add: safe.rep_eq)
  show ?thesis
    using ternary_truthiness [of "JSBoolean False" "filters TemplateEngine" ?cond Map.empty
        "StringNode ''y''" "StringNode ''n''" TemplateEngine "constant_filter JSNull"]
      ternary_truthiness [of JSNull "[]" ?cond "[''c'' \<mapsto> JSString '''']" "StringNode ''y''"
        "StringNode ''n''" TemplateEngine "constant_filter JSNull"]
      ternary_truthiness [of JSNull "[]" ?cond "[''c'' \<mapsto> JSNumber (safe 0)]" "StringNode ''y''"
        "StringNode ''n''" TemplateEngine "constant_filter JSNull"]
      ternary_truthiness [of JSNull "[]" ?cond "[''c'' \<mapsto> JSString ''x'']" "StringNode ''y''"
        "StringNode ''n''" TemplateEngine "constant_filter JSNull"]
      ternary_truthiness [of JSNull "[]" ?cond "[''c'' \<mapsto> JSNumber (safe 7)]" "StringNode ''y''"
        "StringNode ''n''" TemplateEngine "constant_filter JSNull"]
      ternary_truthiness [of JSNull "[]" ?cond Map.empty "StringNode ''y''" "StringNode ''n''"
        ?null "constant_filter JSNull"]
      ternary_truthiness [of "JSObject ''[]''" "[]" ?cond Map.empty "StringNode ''y''"
        "StringNode ''n''" ?obj "constant_filter (JSObject ''[]'')"]
      cache_ok_TemplateEngine i k z
    by (simp add: constant_filter_def)
qed

text \<open>
  The claim as stated fails for \<^verbatim>\<open>NaN\<close> and for \<^verbatim>\<open>0n\<close>, which are not among
  the values it lists as falsy: a condition that evaluates to one of them, here
  the result of a filter, selects the false branch.
\<close>

theorem ternary_nan_counterexample:
  "fst (render (TemplateEngine\<lparr>filters := [(''f'', constant_filter JSNaN)]\<rparr>)
         ''{{ c | f ? 'y' : 'n' }}'' Map.empty) = Inr ''n'' \<and>
   fst (render (TemplateEngine\<lparr>filters := [(''f'', constant_filter (JSBigInt 0))]\<rparr>)
         ''{{ c | f ? 'y' : 'n' }}'' Map.empty) = Inr ''n'' \<and>
   fst (render TemplateEngine ''{{ c ? 'y' : 'n' }}'' [''c'' \<mapsto> JSNaN]) = Inr ''n'' \<and>
   JSNaN \<notin> {JSString '''', JSBoolean False, JSUndefined, JSNull, JSNumber (safe 0)} \<and>
   JSBigInt 0 \<notin> {JSString '''', JSBoolean False, JSUndefined, JSNull, JSNumber (safe 0)}"
  by code_simp

subsection \<open>The or operator\<close>

lemma parse_or_chain:
  "parse (tokenize ''{{ a or b or c }}'') =
     Inr [TemplateNode (OrNode (OrNode (VariableNode ''a'') (VariableNode ''b'')) (VariableNode ''c''))]"
  by code_simp

lemma parse_or_literal:
  "parse (tokenize ''{{ a or b or 'Default Name' }}'') =
     Inr [TemplateNode (OrNode (OrNode (VariableNode ''a'') (VariableNode ''b''))
            (StringNode ''Default Name''))]"
  by code_simp

lemma evaluate_or_chain:
  "evaluateExpression fs (foldl OrNode e es) ctx =
     (case evaluateExpression fs e ctx of
        Inl err \<Rightarrow> Inl err
      | Inr v \<Rightarrow>
          if truthy v then Inr v
          else (case es of
                  [] \<Rightarrow> Inr v
                | e' # es' \<Rightarrow> evaluateExpression fs (foldl OrNode e' es') ctx))"
proof (induction es arbitrary: e rule: rev_induct)
  case Nil
  then show ?case by (simp split: sum.splits)
next
  case (snoc x xs)
  show ?case
  proof (cases xs)
    case Nil
    then show ?thesis by (simp split: sum.splits)
  next
    case (Cons e' es')
    with snoc [of e] show ?thesis by (simp split: sum.splits)
  qed
qed



text \<open>
  The node of a variable or string-literal token, and the tokens of a chain
  \<open>p or p\<^sub>1 or \<dots> or p\<^sub>n\<close>.
\<close>

definition primary_node :: "token \<Rightarrow> expr" where
  "primary_node t =
     (if ttype t = IDENTIFIER then VariableNode (tvalue t) else StringNode (tvalue t))"

definition or_chain :: "token \<Rightarrow> token list \<Rightarrow> token list" where
  "or_chain p ps = p # concat (map (\<lambda>t. [Token OR ''or'', t]) ps)"

lemma parsePipeline_primary:
  assumes "ttype t = IDENTIFIER \<or> ttype t = STRING"
    and "case after of [] \<Rightarrow> True | n # _ \<Rightarrow> ttype n \<noteq> PIPE"
  shows "parsePipeline (t # after) = Inr (primary_node t, after)"
proof -
  have "parsePrimary (t # after) = Inr (primary_node t, after)"
    using assms(1) by (auto simp: parsePrimary_def primary_node_def)
  moreover have "parsePipeline_loop (primary_node t) after = Inr (primary_node t, after)"
    using assms(2) by (subst parsePipeline_loop.simps) (simp split: list.splits)
  ultimately show ?thesis by (simp add: parsePipeline_def)
qed

lemma parseOr_loop_chain:
  assumes "\<forall>t\<in>set ps. ttype t = IDENTIFIER \<or> ttype t = STRING"
    and "case rest of [] \<Rightarrow> True | n # _ \<Rightarrow> ttype n \<noteq> PIPE \<and> ttype n \<noteq> OR"
  shows "parseOr_loop left (concat (map (\<lambda>t. [Token OR ''or'', t]) ps) @ rest) =
     Inr (foldl OrNode left (map primary_node ps), rest)"
  using assms(1)
proof (induction ps arbitrary: left)
  case Nil
  from assms(2) show ?case
    by (subst parseOr_loop.simps) (simp split: list.splits)
next
  case (Cons t ts)
  let ?tl = "concat (map (\<lambda>t. [Token OR ''or'', t]) ts) @ rest"
  have after: "case ?tl of [] \<Rightarrow> True | n # _ \<Rightarrow> ttype n \<noteq> PIPE"
    using assms(2) by (cases ts) (auto split: list.splits)
  from Cons.prems have t: "ttype t = IDENTIFIER \<or> ttype t = STRING" by simp
  have "parseOr_loop left (Token OR ''or'' # t # ?tl) =
      parseOr_loop (OrNode left (primary_node t)) ?tl"
    by (subst parseOr_loop.simps) (simp add: parsePipeline_primary [OF t after])
  also have "\<dots> = Inr (foldl OrNode (OrNode left (primary_node t)) (map primary_node ts), rest)"
    using Cons.prems by (intro Cons.IH) simp
  finally show ?case by simp
qed

lemma parseOr_chain:
  assumes "\<forall>t\<in>set (p # ps). ttype t = IDENTIFIER \<or> ttype t = STRING"
    and "case rest of [] \<Rightarrow> True | n # _ \<Rightarrow> ttype n \<noteq> PIPE \<and> ttype n \<noteq> OR"
  shows "parseOr (or_chain p ps @ rest) =
     Inr (foldl OrNode (primary_node p) (map primary_node ps), rest)"
proof -
  let ?tl = "concat (map (\<lambda>t. [Token OR ''or'', t]) ps) @ rest"
  have after: "case ?tl of [] \<Rightarrow> True | n # _ \<Rightarrow> ttype n \<noteq> PIPE"
    using assms(2) by (cases ps) (auto split: list.splits)
  from assms(1) have p: "ttype p = IDENTIFIER \<or> ttype p = STRING" by simp
  from assms(1) have ps: "\<forall>t\<in>set ps. ttype t = IDENTIFIER \<or> ttype t = STRING" by simp
  show ?thesis
    by (simp add: parseOr_def or_chain_def parsePipeline_primary [OF p after]
        parseOr_loop_chain [OF ps assms(2)])
qed

text \<open>
  C7.  \<^verbatim>\<open>{{ a or b or c }}\<close> parses as \<^verbatim>\<open>Or{Or{a, b}, c}\<close>, and in general
  \<^verbatim>\<open>parseOr\<close> folds a chain of variables and string literals separated by
  \<^verbatim>\<open>or\<close> to the left.  Evaluating such a left-nested chain yields the value
  of the first operand, from left to right, that is truthy (or the first
  error), and the value of the last operand when none is.  On an engine with
  a consistent cache, \<^verbatim>\<open>render('{{ a or b or c }}', {b: 'S'})\<close> is \<^verbatim>\<open>"S"\<close>,
  and \<^verbatim>\<open>render("{{ a or b or 'Default Name' }}", context)\<close> is the literal
  when neither \<^verbatim>\<open>a\<close> nor \<^verbatim>\<open>b\<close> is bound to a truthy value.
\<close>

theorem or_fallback:
  "parse (tokenize ''{{ a or b or c }}'') =
     Inr [TemplateNode (OrNode (OrNode (VariableNode ''a'') (VariableNode ''b'')) (VariableNode ''c''))] \<and>
   ((\<forall>t\<in>set (p # ps). ttype t = IDENTIFIER \<or> ttype t = STRING) \<and>
    (case rest of [] \<Rightarrow> True | n # _ \<Rightarrow> ttype n \<noteq> PIPE \<and> ttype n \<noteq> OR) \<longrightarrow>
      parseOr (or_chain p ps @ rest) =
        Inr (foldl OrNode (primary_node p) (map primary_node ps), rest)) \<and>
   evaluateExpression fs (foldl OrNode e es) ctx =
     (case evaluateExpression fs e ctx of
        Inl err \<Rightarrow> Inl err
      | Inr v \<Rightarrow>
          if truthy v then Inr v
          else (case es of
                  [] \<Rightarrow> Inr v
                | e' # es' \<Rightarrow> evaluateExpression fs (foldl OrNode e' es') ctx)) \<and>
   (cache_ok this \<longrightarrow>
      fst (render this ''{{ a or b or c }}'' [''b'' \<mapsto> JSString ''S'']) = Inr ''S'') \<and>
   (cache_ok this \<and> \<not> truthy (context_get ctx' ''a'') \<and> \<not> truthy (context_get ctx' ''b'') \<longrightarrow>
      fst (render this ''{{ a or b or 'Default Name' }}'' ctx') = Inr ''Default Name'')"
proof -
  have s: "fst (render this ''{{ a or b or c }}'' [''b'' \<mapsto> JSString ''S'']) = Inr ''S''"
    if ok: "cache_ok this"
    using render_result [OF ok, of "''{{ a or b or c }}''" "[''b'' \<mapsto> JSString ''S'']"]
      parse_or_chain
    by (simp add: evaluate_def evaluateNode_def js_or_def context_get_def
        object_prototype_value_def)
  have d: "fst (render this ''{{ a or b or 'Default Name' }}'' ctx') = Inr ''Default Name''"
    if ok: "cache_ok this" and a: "\<not> truthy (context_get ctx' ''a'')"
      and b: "\<not> truthy (context_get ctx' ''b'')"
    using render_result [OF ok, of "''{{ a or b or 'Default Name' }}''" ctx']
      parse_or_literal a b
    by (simp add: evaluate_def evaluateNode_def js_or_def)
  from s d parse_or_chain parseOr_chain [of p ps rest] evaluate_or_chain [of fs e es ctx]
  show ?thesis by simp
qed

theorem or_fallback_witness:
  "parseOr (or_chain (Token IDENTIFIER ''a'') [Token IDENTIFIER ''b'', Token STRING ''z'']
       @ [Token CLOSE_TEMPLATE ''}}'']) =
     Inr (OrNode (OrNode (VariableNode ''a'') (VariableNode ''b'')) (StringNode ''z''),
          [Token CLOSE_TEMPLATE ''}}'']) \<and>
   cache_ok TemplateEngine \<and>
   fst (render TemplateEngine ''{{ a or b or c }}'' [''b'' \<mapsto> JSString ''S'']) = Inr ''S'' \<and>
   \<not> truthy (context_get [''a'' \<mapsto> JSString ''''] ''a'') \<and>
   \<not> truthy (context_get [''a'' \<mapsto> JSString ''''] ''b'') \<and>
   fst (render TemplateEngine ''{{ a or b or 'Default Name' }}'' [''a'' \<mapsto> JSString '''']) =
     Inr ''Default Name''"
  using or_fallback [of "Token IDENTIFIER ''a''" "[Token IDENTIFIER ''b'', Token STRING ''z'']"
      "[Token CLOSE_TEMPLATE ''}}'']" "[]" "StringNode ''''" "[]" Map.empty TemplateEngine
      "[''a'' \<mapsto> JSString '''']"]
    cache_ok_TemplateEngine
  by (simp add: primary_node_def context_get_def object_prototype_value_def)

subsection \<open>Short-circuit evaluation\<close>

lemma parse_ternary_nope:
  \<open>parse (tokenize ''{{ c ? "y" : x | nope }}'') =
     Inr [TemplateNode (TernaryNode (VariableNode ''c'') (StringNode ''y'')
            (PipeNode (VariableNode ''x'') (FilterNode ''nope'' [])))]\<close>
  by code_simp

lemma object_prototype_nope: "object_prototype ''nope'' = None"
  by code_simp

text \<open>
  C8.  When the condition of a ternary evaluates to a truthy value, the
  ternary evaluates as its true branch, whatever the false branch is; when it
  evaluates to a falsy value, as its false branch, whatever the true branch
  is.  When the left operand of \<^verbatim>\<open>or\<close> evaluates to a truthy value, the
  result is that value, whatever the right operand is.  So, on an engine with a
  consistent cache where \<^verbatim>\<open>nope\<close> is not registered and with \<^verbatim>\<open>c\<close> bound to
  a truthy value, \<^verbatim>\<open>render('{{ c ? "y" : x | nope }}')\<close> returns \<^verbatim>\<open>"y"\<close>,
  although evaluating the false branch raises \<^verbatim>\<open>Unknown filter: nope\<close>.
\<close>

theorem short_circuit:
  \<open>(evaluateExpression fs c ctx = Inr v \<and> truthy v \<longrightarrow>
      evaluateExpression fs (TernaryNode c t f) ctx = evaluateExpression fs t ctx) \<and>
   (evaluateExpression fs c ctx = Inr v \<and> \<not> truthy v \<longrightarrow>
      evaluateExpression fs (TernaryNode c t f) ctx = evaluateExpression fs f ctx) \<and>
   (evaluateExpression fs c ctx = Inr v \<and> truthy v \<longrightarrow>
      evaluateExpression fs (OrNode c r) ctx = Inr v) \<and>
   (cache_ok this \<and> map_of (filters this) ''nope'' = None \<and> ctx ''c'' = Some v \<and> truthy v \<longrightarrow>
      evaluateExpression (filters this)
        (PipeNode (VariableNode ''x'') (FilterNode ''nope'' [])) ctx =
        Inl (Error ''Unknown filter: nope'') \<and>
      fst (render this ''{{ c ? "y" : x | nope }}'' ctx) = Inr ''y'')\<close>
proof -
  have r: \<open>fst (render this ''{{ c ? "y" : x | nope }}'' ctx) = Inr ''y''\<close>
    if ok: "cache_ok this" and c: "ctx ''c'' = Some v" and v: "truthy v"
  proof -
    have \<open>fst (render this ''{{ c ? "y" : x | nope }}'' ctx) =
        evaluate this [TemplateNode (TernaryNode (VariableNode ''c'') (StringNode ''y'')
            (PipeNode (VariableNode ''x'') (FilterNode ''nope'' [])))] ctx\<close>
      using render_result [OF ok, of \<open>''{{ c ? "y" : x | nope }}''\<close> ctx] parse_ternary_nope
      by simp
    also have "\<dots> = Inr ''y''"
      using c v by (simp add: evaluate_def evaluateNode_def js_or_def context_get_def)
    finally show ?thesis .
  qed
  have u: "evaluateExpression (filters this)
        (PipeNode (VariableNode ''x'') (FilterNode ''nope'' [])) ctx =
        Inl (Error ''Unknown filter: nope'')"
    if "map_of (filters this) ''nope'' = None"
    using that object_prototype_nope by (simp add: get_filter_def)
  from r u show ?thesis by simp
qed

theorem short_circuit_witness:
  \<open>evaluateExpression [] (VariableNode ''c'') [''c'' \<mapsto> JSString ''on''] = Inr (JSString ''on'') \<and>
   truthy (JSString ''on'') \<and>
   evaluateExpression [] (TernaryNode (VariableNode ''c'') (StringNode ''y'')
       (PipeNode (VariableNode ''x'') (FilterNode ''nope'' []))) [''c'' \<mapsto> JSString ''on''] =
     Inr (JSString ''y'') \<and>
   evaluateExpression [] (OrNode (VariableNode ''c'')
       (PipeNode (VariableNode ''x'') (FilterNode ''nope'' []))) [''c'' \<mapsto> JSString ''on''] =
     Inr (JSString ''on'') \<and>
   evaluateExpression [] (VariableNode ''d'') [''c'' \<mapsto> JSString ''on''] = Inr (JSString '''') \<and>
   \<not> truthy (JSString '''') \<and>
   evaluateExpression [] (TernaryNode (VariableNode ''d'')
       (PipeNode (VariableNode ''x'') (FilterNode ''nope'' [])) (StringNode ''n''))
       [''c'' \<mapsto> JSString ''on''] =
     Inr (JSString ''n'') \<and>
   cache_ok TemplateEngine \<and> map_of (filters TemplateEngine) ''nope'' = None \<and>
   evaluateExpression (filters TemplateEngine)
       (PipeNode (VariableNode ''x'') (FilterNode ''nope'' [])) [''c'' \<mapsto> JSString ''on''] =
     Inl (Error ''Unknown filter: nope'') \<and>
   fst (render TemplateEngine ''{{ c ? "y" : x | nope }}'' [''c'' \<mapsto> JSString ''on'']) = Inr ''y''\<close>
proof -
  have m: "map_of (filters TemplateEngine) ''nope'' = None" by code_simp
  show ?thesis
    using short_circuit [of "[]" "VariableNode ''c''" "[''c'' \<mapsto> JSString ''on'']" "JSString ''on''"
        "StringNode ''y''" "PipeNode (VariableNode ''x'') (FilterNode ''nope'' [])"
        "PipeNode (VariableNode ''x'') (FilterNode ''nope'' [])" TemplateEngine]
      short_circuit [of "[]" "VariableNode ''d''" "[''c'' \<mapsto> JSString ''on'']" "JSString ''''"
        "PipeNode (VariableNode ''x'') (FilterNode ''nope'' [])" "StringNode ''n''"
        "StringNode ''n''" TemplateEngine]
      cache_ok_TemplateEngine m
    by (simp add: js_or_def context_get_def object_prototype_value_def)
qed

subsection \<open>The compile cache\<close>

text \<open>
  C9.  After a \<^verbatim>\<open>compile\<close> of a template that returned a syntax tree, a
  second \<^verbatim>\<open>compile\<close> of the same template on the resulting engine returns
  the same tree and leaves the engine as it is, whatever parser it is given:
  the tree comes from the cache and the parser is not invoked.  The first
  \<^verbatim>\<open>compile\<close> adds or changes no cache entry but the one under the template's
  exact text.
\<close>

theorem compile_cached:
  "compile this template = (Inr ast, this') \<Longrightarrow>
     compile this' template = (Inr ast, this') \<and>
     (\<forall>parser. compile_with parser this' template = (Inr ast, this')) \<and>
     astCache this' template = Some ast \<and>
     (\<forall>other. other \<noteq> template \<longrightarrow> astCache this' other = astCache this other)"
proof -
  assume c: "compile this template = (Inr ast, this')"
  have hit: "astCache this' template = Some ast"
    using c by (auto simp: compile_def compile_with_def split: option.splits sum.splits)
  have others: "astCache this' other = astCache this other" if "other \<noteq> template" for other
    using c that by (auto simp: compile_def compile_with_def split: option.splits sum.splits)
  from hit have "compile_with parser this' template = (Inr ast, this')" for parser
    by (simp add: compile_with_def)
  with hit others show ?thesis by (simp add: compile_def)
qed

lemma compile_a: "fst (compile TemplateEngine ''{{a}}'') = Inr [TemplateNode (VariableNode ''a'')]"
  by code_simp

lemma parse_a_spaced: "parse (tokenize ''{{ a }}'') = Inr [TemplateNode (VariableNode ''a'')]"
  by code_simp

theorem compile_cached_witness:
  "compile TemplateEngine ''{{a}}'' =
     (Inr [TemplateNode (VariableNode ''a'')], snd (compile TemplateEngine ''{{a}}'')) \<and>
   compile (snd (compile TemplateEngine ''{{a}}'')) ''{{a}}'' =
     (Inr [TemplateNode (VariableNode ''a'')], snd (compile TemplateEngine ''{{a}}'')) \<and>
   compile_with (\<lambda>t. Inl TypeError) (snd (compile TemplateEngine ''{{a}}'')) ''{{a}}'' =
     (Inr [TemplateNode (VariableNode ''a'')], snd (compile TemplateEngine ''{{a}}'')) \<and>
   parse (tokenize ''{{ a }}'') = Inr [TemplateNode (VariableNode ''a'')] \<and>
   astCache (snd (compile TemplateEngine ''{{a}}'')) ''{{ a }}'' = None"
proof -
  have c: "compile TemplateEngine ''{{a}}'' =
      (Inr [TemplateNode (VariableNode ''a'')], snd (compile TemplateEngine ''{{a}}''))"
    using compile_a by (simp add: prod_eq_iff)
  have e: "astCache TemplateEngine ''{{ a }}'' = None" by (simp add: TemplateEngine_def)
  from compile_cached [OF c] c e parse_a_spaced show ?thesis by simp
qed

subsection \<open>Falsy bindings\<close>

lemma sequence_map_cong:
  "(\<And>a. a \<in> set xs \<Longrightarrow> f a = g a) \<Longrightarrow> sequence (map f xs) = sequence (map g xs)"
proof -
  assume "\<And>a. a \<in> set xs \<Longrightarrow> f a = g a"
  then have "map f xs = map g xs" by simp
  then show ?thesis by (rule arg_cong)
qed

lemma evaluate_context_cong:
  assumes "\<And>n. js_or (context_get ctx n) (JSString '''') = js_or (context_get ctx' n) (JSString '''')"
  shows "evaluateExpression fs e ctx = evaluateExpression fs e ctx'"
    and "applyFilter fs f v ctx = applyFilter fs f v ctx'"
  using assms
proof (induction fs e ctx and fs f v ctx rule: evaluateExpression_applyFilter.induct)
  case (1 fs name ctx)
  then show ?case by simp
next
  case (2 fs v ctx)
  then show ?case by simp
next
  case (3 fs left fltr ctx)
  then show ?case by (simp split: sum.splits)
next
  case (4 fs condition trueExpr falseExpr ctx)
  then show ?case by (simp split: sum.splits)
next
  case (5 fs left right ctx)
  then show ?case by (simp split: sum.splits)
next
  case (6 fs name args v ctx)
  show ?case
  proof (cases "get_filter fs name")
    case None
    then show ?thesis by simp
  next
    case (Some fn)
    have "sequence (map (\<lambda>arg. evaluateExpression fs arg ctx) args) =
        sequence (map (\<lambda>arg. evaluateExpression fs arg ctx') args)"
      by (rule sequence_map_cong) (rule 6(1) [OF Some _ 6(2)])
    with Some show ?thesis by simp
  qed
qed

text \<open>
  C10.  When \<^verbatim>\<open>x\<close> is bound to a falsy value, the variable \<^verbatim>\<open>x\<close> evaluates
  to the empty string.  But the binding can be told from an absent variable
  when \<^verbatim>\<open>x\<close> is the name of a property of \<^verbatim>\<open>Object.prototype\<close>: on a new
  engine \<^verbatim>\<open>render('{{ toString }}', {toString: 0})\<close> is the empty string and
  \<^verbatim>\<open>render('{{ toString }}', {})\<close> is the string form of the inherited
  function.  For every other name, every expression and every compiled
  template evaluates with the falsy binding as it does without it.
\<close>

theorem falsy_binding_as_absent:
  "fst (render TemplateEngine ''{{ toString }}'' [''toString'' \<mapsto> JSNumber (safe 0)]) = Inr '''' \<and>
   fst (render TemplateEngine ''{{ toString }}'' Map.empty) =
     Inr ''function toString() { [native code] }'' \<and>
   (ctx x = Some v \<and> \<not> truthy v \<longrightarrow>
      evaluateExpression fs (VariableNode x) ctx = Inr (JSString '''')) \<and>
   (ctx x = Some v \<and> \<not> truthy v \<and> object_prototype_value x = None \<longrightarrow>
      evaluateExpression fs e ctx = evaluateExpression fs e (ctx(x := None)) \<and>
      evaluate this ast ctx = evaluate this ast (ctx(x := None)))"
proof -
  have a: "fst (render TemplateEngine ''{{ toString }}'' [''toString'' \<mapsto> JSNumber (safe 0)]) =
      Inr ''''"
    by code_simp
  have b: "fst (render TemplateEngine ''{{ toString }}'' Map.empty) =
      Inr ''function toString() { [native code] }''"
    by code_simp
  have c: "evaluateExpression fs (VariableNode x) ctx = Inr (JSString '''')"
    if "ctx x = Some v" and "\<not> truthy v"
    using that by (simp add: js_or_def context_get_def)
  have d: "evaluateExpression fs e ctx = evaluateExpression fs e (ctx(x := None)) \<and>
      evaluate this ast ctx = evaluate this ast (ctx(x := None))"
    if x: "ctx x = Some v" and v: "\<not> truthy v" and p: "object_prototype_value x = None"
  proof -
    have same: "js_or (context_get ctx n) (JSString '''') =
        js_or (context_get (ctx(x := None)) n) (JSString '''')" for n
      using x v p by (simp add: js_or_def context_get_def)
    have ev: "evaluateExpression fs e ctx = evaluateExpression fs e (ctx(x := None))" for fs e
      by (rule evaluate_context_cong(1) [OF same])
    have "evaluateNode (filters this) n ctx = evaluateNode (filters this) n (ctx(x := None))" for n
      by (simp add: evaluateNode_def ev split: ast_node.splits)
    then have "evaluate this ast ctx = evaluate this ast (ctx(x := None))"
      by (simp add: evaluate_def)
    with ev show ?thesis by simp
  qed
  from a b c d show ?thesis by blast
qed

theorem falsy_binding_as_absent_witness:
  "[''x'' \<mapsto> JSNumber (safe 0)] ''x'' = Some (JSNumber (safe 0)) \<and>
   \<not> truthy (JSNumber (safe 0)) \<and> object_prototype_value ''x'' = None \<and>
   evaluateExpression [] (VariableNode ''x'') [''x'' \<mapsto> JSNumber (safe 0)] = Inr (JSString '''') \<and>
   evaluateExpression [] (OrNode (VariableNode ''x'') (StringNode ''none''))
       [''x'' \<mapsto> JSNumber (safe 0)] =
     evaluateExpression [] (OrNode (VariableNode ''x'') (StringNode ''none'')) Map.empty \<and>
   [''x'' \<mapsto> JSBoolean False] ''x'' = Some (JSBoolean False) \<and> \<not> truthy (JSBoolean False) \<and>
   evaluateExpression [] (VariableNode ''x'') [''x'' \<mapsto> JSBoolean False] = Inr (JSString '''') \<and>
   evaluate TemplateEngine [TemplateNode (VariableNode ''x'')] [''x'' \<mapsto> JSBoolean False] =
     evaluate TemplateEngine [TemplateNode (VariableNode ''x'')] Map.empty"
proof -
  have p: "object_prototype_value ''x'' = None" by (simp add: object_prototype_value_def)
  have z: "\<not> truthy (JSNumber (safe 0))" by (simp add: safe.rep_eq)
  show ?thesis
    using falsy_binding_as_absent [of "[''x'' \<mapsto> JSNumber (safe 0)]" "''x''" "JSNumber (safe 0)"
        "[]" "OrNode (VariableNode ''x'') (StringNode ''none'')" TemplateEngine "[]"]
      falsy_binding_as_absent [of "[''x'' \<mapsto> JSBoolean False]" "''x''" "JSBoolean False" "[]"
        "VariableNode ''x''" TemplateEngine "[TemplateNode (VariableNode ''x'')]"]
      p z
    by (simp add: js_or_def context_get_def)
qed

end
